theory Spec2Isabelle
  imports Complex_Main
begin

section \<open>HOG descriptor pipeline (src/src/hog\_descriptor.py)\<close>

text \<open>
  The arrays of the program hold floating-point numbers. They are modelled here over
  the real numbers: every arithmetic operation is exact. Rounding error, overflow,
  signed zeros and NaN are outside this model.

  A two-dimensional array is a list of rows. Its shape is \<open>(nrows, ncols)\<close>; the
  column count of an array with no row is taken as 0.

  The element type of an input image is kept beside its values, since torch refuses to
  combine tensors of different element types. The arrays computed from the image are all
  floating point, and no later step depends on their element type.
\<close>

subsection \<open>Errors and arrays\<close>

datatype error =
    RuntimeError          \<comment> \<open>raised by torch's conv2d\<close>
  | AssertionError        \<comment> \<open>a failed \<open>assert\<close>\<close>
  | ZeroDivisionError     \<comment> \<open>\<open>%\<close> or \<open>//\<close> by zero\<close>
  | ValueError            \<comment> \<open>raised by numpy\<close>
  | IndexError            \<comment> \<open>raised by numpy indexing\<close>

type_synonym matrix = "real list list"

text \<open>The element types of numpy that \<open>torch.tensor\<close> accepts.\<close>

datatype dtype =
  Float16 | Float32 | Float64 | Int8 | Int16 | Int32 | Int64 | UInt8 | Bool

text \<open>An array or tensor on the way into conv2d: its element type and its values.\<close>

type_synonym tensor = "dtype \<times> matrix"

definition nrows :: "'a list list \<Rightarrow> nat" where
  "nrows m = length m"

definition ncols :: "'a list list \<Rightarrow> nat" where
  "ncols m = (case m of [] \<Rightarrow> 0 | r # _ \<Rightarrow> length r)"

definition rect :: "'a list list \<Rightarrow> bool" where
  "rect m = list_all (\<lambda>r. length r = ncols m) m"

text \<open>
  The result of \<open>torch.squeeze\<close> on a tensor of shape \<open>(1, 1, h, w)\<close>: every axis of
  size 1 is removed, so the result has 0, 1 or 2 axes.
\<close>

datatype ndarray = A0 real | A1 "real list" | A2 matrix

definition squeeze :: "matrix \<Rightarrow> ndarray" where
  "squeeze m =
     (if nrows m = 1 \<and> ncols m = 1 then A0 (m ! 0 ! 0)
      else if nrows m = 1 then A1 (m ! 0)
      else if ncols m = 1 then A1 (map (\<lambda>r. r ! 0) m)
      else A2 m)"

fun elems :: "ndarray \<Rightarrow> real list" where
  "elems (A0 x) = [x]"
| "elems (A1 xs) = xs"
| "elems (A2 m) = concat m"

subsection \<open>Gradient estimation: \<open>compute_image_gradients\<close>\<close>

definition SOBEL_X_KERNEL :: matrix where
  "SOBEL_X_KERNEL = [[-1, 0, 1], [-2, 0, 2], [-1, 0, 1]]"

definition SOBEL_Y_KERNEL :: matrix where
  "SOBEL_Y_KERNEL = [[1, 2, 1], [0, 0, 0], [-1, -2, -1]]"

text \<open>Both kernels are cast with \<open>.astype(np.float32)\<close>.\<close>

definition KERNEL_DTYPE :: dtype where
  "KERNEL_DTYPE = Float32"

text \<open>\<open>padding = p\<close> of conv2d: \<open>p\<close> rows and columns of zeros on every side.\<close>

definition zero_pad :: "nat \<Rightarrow> matrix \<Rightarrow> matrix" where
  "zero_pad p img =
     (let z = replicate (ncols img + 2 * p) 0
      in replicate p z @ map (\<lambda>r. replicate p 0 @ r @ replicate p 0) img @ replicate p z)"

text \<open>
  \<open>torch.nn.functional.conv2d\<close> with one input channel, one output channel, stride 1
  and no bias (its defaults): the kernel slides over the padded input and each output
  value is the sum of the products of the kernel with the window under it (the kernel
  is not flipped). It raises when the element types of the input and of the kernel
  differ, and when the padded input is smaller than the kernel.
\<close>

definition conv2d :: "tensor \<Rightarrow> tensor \<Rightarrow> nat \<Rightarrow> error + matrix" where
  "conv2d input weight p =
     (let img = snd input; k = snd weight;
          P = zero_pad p img; H = nrows P; W = ncols P; kh = nrows k; kw = ncols k
      in if fst input \<noteq> fst weight then Inl RuntimeError
         else if H < kh \<or> W < kw then Inl RuntimeError
         else Inr (map (\<lambda>i. map (\<lambda>j.
                (\<Sum>a\<leftarrow>[0..<kh]. \<Sum>b\<leftarrow>[0..<kw]. k ! a ! b * P ! (i + a) ! (j + b)))
                [0..<W - kw + 1]) [0..<H - kh + 1]))"

text \<open>
  \<open>torch.tensor\<close> keeps the element type of the array it is given: the two kernels are
  float32 tensors, and the image tensor has the element type of the caller's image.
\<close>

definition compute_image_gradients :: "tensor \<Rightarrow> error + ndarray \<times> ndarray" where
  "compute_image_gradients img_gray =
     (let px = (length SOBEL_X_KERNEL - 1) div 2;
          py = (length SOBEL_Y_KERNEL - 1) div 2;
          kernel_X = (KERNEL_DTYPE, SOBEL_X_KERNEL);
          kernel_Y = (KERNEL_DTYPE, SOBEL_Y_KERNEL)
      in case conv2d img_gray kernel_X px of
           Inl e \<Rightarrow> Inl e
         | Inr cx \<Rightarrow>
             (case conv2d img_gray kernel_Y py of
                Inl e \<Rightarrow> Inl e
              | Inr cy \<Rightarrow> Inr (squeeze cx, squeeze cy)))"

text \<open>
  The specification's wording of the gradient: a pixel outside the image counts as 0,
  and the value at \<open>(i, j)\<close> is the kernel applied to the 3 by 3 neighbourhood centred
  at \<open>(i, j)\<close>.
\<close>

definition pixel0 :: "matrix \<Rightarrow> int \<Rightarrow> int \<Rightarrow> real" where
  "pixel0 img r c =
     (if 0 \<le> r \<and> r < int (nrows img) \<and> 0 \<le> c \<and> c < int (ncols img)
      then img ! nat r ! nat c else 0)"

definition spec_gradient :: "matrix \<Rightarrow> matrix \<Rightarrow> nat \<Rightarrow> nat \<Rightarrow> real" where
  "spec_gradient k img i j =
     (\<Sum>a\<leftarrow>[0..<3]. \<Sum>b\<leftarrow>[0..<3]. k ! a ! b * pixel0 img (int i + int a - 1) (int j + int b - 1))"

subsection \<open>Magnitude and orientation: \<open>compute_magnitudes_and_orientations\<close>\<close>

text \<open>
  numpy's elementwise operations. Both operands of every binary operation of this
  program come from the same convolution and have the same shape; numpy's broadcasting
  of operands of different shapes is not modelled and is reported as \<open>ValueError\<close>.
\<close>

fun ew1 :: "(real \<Rightarrow> real) \<Rightarrow> ndarray \<Rightarrow> ndarray" where
  "ew1 f (A0 x) = A0 (f x)"
| "ew1 f (A1 xs) = A1 (map f xs)"
| "ew1 f (A2 m) = A2 (map (map f) m)"

fun ew2 :: "(real \<Rightarrow> real \<Rightarrow> real) \<Rightarrow> ndarray \<Rightarrow> ndarray \<Rightarrow> error + ndarray" where
  "ew2 f (A0 x) (A0 y) = Inr (A0 (f x y))"
| "ew2 f (A1 xs) (A1 ys) =
     (if length xs = length ys then Inr (A1 (map2 f xs ys)) else Inl ValueError)"
| "ew2 f (A2 m) (A2 n) =
     (if map length m = map length n then Inr (A2 (map2 (map2 f) m n)) else Inl ValueError)"
| "ew2 f _ _ = Inl ValueError"

text \<open>
  \<open>np.arctan2(y, x)\<close>: the angle of the point \<open>(x, y)\<close>, by quadrant, with
  \<open>arctan2(0, 0) = 0\<close>.
\<close>

definition arctan2 :: "real \<Rightarrow> real \<Rightarrow> real" where
  "arctan2 y x =
     (if 0 < x then arctan (y / x)
      else if x < 0 then (if 0 \<le> y then arctan (y / x) + pi else arctan (y / x) - pi)
      else if 0 < y then pi / 2
      else if y < 0 then - (pi / 2)
      else 0)"

definition compute_magnitudes_and_orientations :: "tensor \<Rightarrow> error + ndarray \<times> ndarray" where
  "compute_magnitudes_and_orientations image_gray =
     (case compute_image_gradients image_gray of
        Inl e \<Rightarrow> Inl e
      | Inr (Ix, Iy) \<Rightarrow>
          (case ew2 (+) (ew1 (\<lambda>x. x\<^sup>2) Ix) (ew1 (\<lambda>y. y\<^sup>2) Iy) of
             Inl e \<Rightarrow> Inl e
           | Inr grad_magnitude \<Rightarrow>
               (case ew2 arctan2 Iy Ix of
                  Inl e \<Rightarrow> Inl e
                | Inr orientation \<Rightarrow> Inr (orientation, grad_magnitude))))"

subsection \<open>Histogram of one cell: \<open>create_histogram\<close>\<close>

text \<open>
  \<open>np.linspace(start, stop, num)\<close>: \<open>num\<close> evenly spaced values, the first \<open>start\<close>
  and (for \<open>num > 1\<close>) the last \<open>stop\<close>.
\<close>

definition linspace :: "real \<Rightarrow> real \<Rightarrow> nat \<Rightarrow> real list" where
  "linspace start stop num =
     (if num = 1 then [start]
      else map (\<lambda>k. start + real k * ((stop - start) / real (num - 1))) [0..<num])"

text \<open>\<open>np.rint\<close>: the nearest integer, a tie going to the even one.\<close>

definition rint :: "real \<Rightarrow> int" where
  "rint x =
     (let f = \<lfloor>x\<rfloor>; d = x - of_int f
      in if d < 1 / 2 then f else if 1 / 2 < d then f + 1 else if even f then f else f + 1)"

text \<open>\<open>np.around(x, decimals=5)\<close>: scale by \<open>10\<^sup>5\<close>, round, scale back.\<close>

definition around5 :: "real \<Rightarrow> real" where
  "around5 x = of_int (rint (x * 10 ^ 5)) / 10 ^ 5"

text \<open>
  \<open>np.histogram(a, bins, weights)\<close> with an array of bin edges: a value \<open>v\<close> belongs to
  bin \<open>k\<close> when \<open>bins[k] \<le> v < bins[k+1]\<close>; the last bin also holds \<open>v = bins[-1]\<close>; a
  value in no bin is ignored. Each value adds its weight to its bin. The arrays are
  flattened first; numpy raises when their shapes differ or when the edges decrease.
\<close>

fun find_bin :: "real list \<Rightarrow> real \<Rightarrow> nat option" where
  "find_bin (a # b # es) v =
     (if a \<le> v \<and> (v < b \<or> (es = [] \<and> v = b)) then Some 0
      else map_option Suc (find_bin (b # es) v))"
| "find_bin _ v = None"

definition hist_add :: "real list \<Rightarrow> real list \<Rightarrow> real \<times> real \<Rightarrow> real list" where
  "hist_add bins acc vw =
     (case find_bin bins (fst vw) of
        None \<Rightarrow> acc
      | Some k \<Rightarrow> acc[k := acc ! k + snd vw])"

definition np_histogram :: "matrix \<Rightarrow> real list \<Rightarrow> matrix \<Rightarrow> error + real list" where
  "np_histogram a bins weights =
     (if map length a \<noteq> map length weights then Inl ValueError
      else if \<not> sorted bins then Inl ValueError
      else Inr (foldl (hist_add bins) (replicate (length bins - 1) 0)
                  (zip (concat a) (concat weights))))"

definition create_histogram ::
  "matrix \<Rightarrow> matrix \<Rightarrow> nat \<Rightarrow> error + real list \<times> real list" where
  "create_histogram cell_magnitudes cell_orientations num_bins =
     (let bin_ticks = linspace (- pi - pi / 8) (pi - pi / 8) (num_bins + 1)
      in case np_histogram (map (map around5) cell_orientations) bin_ticks cell_magnitudes of
           Inl e \<Rightarrow> Inl e
         | Inr histogram \<Rightarrow> Inr (histogram, bin_ticks))"

subsection \<open>Histograms of all cells: \<open>create_image_histograms\<close>\<close>

text \<open>A Python \<open>for\<close> loop over a list of indices; it stops at the first error.\<close>

fun for_loop :: "'i list \<Rightarrow> ('i \<Rightarrow> 's \<Rightarrow> error + 's) \<Rightarrow> 's \<Rightarrow> error + 's" where
  "for_loop [] body s = Inr s"
| "for_loop (x # xs) body s =
     (case body x s of Inl e \<Rightarrow> Inl e | Inr s' \<Rightarrow> for_loop xs body s')"

text \<open>
  \<open>arr[r0:r1, c0:c1]\<close> with non-negative bounds: the slice is cut at the end of the
  array. An array with fewer than two axes raises.
\<close>

definition slice :: "'a list \<Rightarrow> nat \<Rightarrow> nat \<Rightarrow> 'a list" where
  "slice xs lo hi = take (hi - lo) (drop lo xs)"

definition slice2 :: "ndarray \<Rightarrow> nat \<Rightarrow> nat \<Rightarrow> nat \<Rightarrow> nat \<Rightarrow> error + matrix" where
  "slice2 arr r0 r1 c0 c1 =
     (case arr of
        A2 m \<Rightarrow> Inr (map (\<lambda>row. slice row c0 c1) (slice m r0 r1))
      | _ \<Rightarrow> Inl IndexError)"

text \<open>
  \<open>grid[i, j] = v\<close> on a three-dimensional array: the value must have the length of the
  last axis, or length 1 (it is then repeated).
\<close>

definition set_item :: "real list list list \<Rightarrow> nat \<Rightarrow> nat \<Rightarrow> real list \<Rightarrow> error + real list list list" where
  "set_item grid i j v =
     (if i < length grid \<and> j < length (grid ! i)
      then (let d = length (grid ! i ! j)
            in if length v = d then Inr (grid[i := (grid ! i)[j := v]])
               else if length v = 1 then Inr (grid[i := (grid ! i)[j := replicate d (v ! 0)]])
               else Inl ValueError)
      else Inl IndexError)"

type_synonym hist_state = "real list list list \<times> real list option"

definition cell_step ::
  "ndarray \<Rightarrow> ndarray \<Rightarrow> nat \<Rightarrow> nat \<Rightarrow> nat \<Rightarrow> nat \<Rightarrow> hist_state \<Rightarrow> error + hist_state" where
  "cell_step orientation grad_magnitude cell_size num_bins i j st =
     (case slice2 orientation (i * cell_size) ((i + 1) * cell_size)
                              (j * cell_size) ((j + 1) * cell_size) of
        Inl e \<Rightarrow> Inl e
      | Inr cell_orientations \<Rightarrow>
     (case slice2 grad_magnitude (i * cell_size) ((i + 1) * cell_size)
                                 (j * cell_size) ((j + 1) * cell_size) of
        Inl e \<Rightarrow> Inl e
      | Inr cell_magnitudes \<Rightarrow>
     (case create_histogram cell_magnitudes cell_orientations num_bins of
        Inl e \<Rightarrow> Inl e
      | Inr (histogram, bin_ticks) \<Rightarrow>
     (case set_item (fst st) i j histogram of
        Inl e \<Rightarrow> Inl e
      | Inr histogram_grid \<Rightarrow> Inr (histogram_grid, Some bin_ticks)))))"

definition create_image_histograms :: "tensor \<Rightarrow> int \<Rightarrow> error + hist_state" where
  "create_image_histograms image_gray cell_size =
     (let N = int (nrows (snd image_gray)); M = int (ncols (snd image_gray))
      in case compute_magnitudes_and_orientations image_gray of
           Inl e \<Rightarrow> Inl e
         | Inr (orientation, grad_magnitude) \<Rightarrow>
             if cell_size = 0 then Inl ZeroDivisionError
             else if M mod cell_size \<noteq> 0 then Inl AssertionError
             else if N mod cell_size \<noteq> 0 then Inl AssertionError
             else if M div cell_size < 0 then Inl ValueError
             else
               (let num_bins = 8;
                    histogram_grid = replicate (nat (M div cell_size))
                      (replicate (nat (M div cell_size)) (replicate num_bins 0))
                in for_loop [0..<nat (M div cell_size)]
                     (\<lambda>i. for_loop [0..<nat (N div cell_size)]
                        (\<lambda>j. cell_step orientation grad_magnitude (nat cell_size) num_bins i j))
                     (histogram_grid, None)))"

subsection \<open>Block descriptor: \<open>create_descriptor\<close>\<close>

text \<open>Python's \<open>xs[lo:hi]\<close> for any integers: a negative bound counts from the end.\<close>

definition py_slice :: "'a list \<Rightarrow> int \<Rightarrow> int \<Rightarrow> 'a list" where
  "py_slice xs lo hi =
     (let n = int (length xs);
          l = (if lo < 0 then max 0 (lo + n) else min lo n);
          h = (if hi < 0 then max 0 (hi + n) else min hi n)
      in take (nat (h - l)) (drop (nat l) xs))"

text \<open>\<open>np.linalg.norm\<close> of a vector: the Euclidean norm.\<close>

definition linalg_norm :: "real list \<Rightarrow> real" where
  "linalg_norm v = sqrt (\<Sum>x\<leftarrow>v. x\<^sup>2)"

definition get_block :: "real list list list \<Rightarrow> int \<Rightarrow> int \<Rightarrow> nat \<Rightarrow> nat \<Rightarrow> real list" where
  "get_block histogram_grid block_size step_size i j =
     concat (concat (map (\<lambda>row. py_slice row (int j * step_size) (int j * step_size + block_size))
       (py_slice histogram_grid (int i * step_size) (int i * step_size + block_size))))"

definition normalize_block :: "real list \<Rightarrow> real list" where
  "normalize_block block_concat =
     (if linalg_norm block_concat \<noteq> 0
      then map (\<lambda>x. x / linalg_norm block_concat) block_concat
      else block_concat)"

definition block_step ::
  "real list list list \<Rightarrow> int \<Rightarrow> int \<Rightarrow> nat \<Rightarrow> nat \<Rightarrow> real list list list \<Rightarrow> error + real list list list" where
  "block_step histogram_grid block_size step_size i j block_grid =
     set_item block_grid i j
       (normalize_block (get_block histogram_grid block_size step_size i j))"

definition create_descriptor :: "real list list list \<Rightarrow> int \<Rightarrow> int \<Rightarrow> error + real list list list" where
  "create_descriptor histogram_grid block_size step_size =
     (if histogram_grid = [] then Inl IndexError
      else
        (let M = int (length histogram_grid); N = int (length (histogram_grid ! 0))
         in if \<not> (block_size \<le> M \<and> block_size \<le> N) then Inl AssertionError
            else if step_size = 0 then Inl ZeroDivisionError
            else
              (let m = (M - (block_size - 1)) div step_size;
                   n = (N - (block_size - 1)) div step_size
               in if histogram_grid ! 0 = [] then Inl IndexError
                  else if m < 0 \<or> n < 0 then Inl ValueError
                  else
                    (let d = nat (int (length (histogram_grid ! 0 ! 0)) * block_size\<^sup>2);
                         block_grid = replicate (nat m) (replicate (nat n) (replicate d 0))
                     in for_loop [0..<nat m]
                          (\<lambda>i. for_loop [0..<nat n]
                             (\<lambda>j. block_step histogram_grid block_size step_size i j))
                          block_grid))))"

text \<open>
  The specification's wording of a block: the histograms of the cells
  \<open>(i\<cdot>S + a, j\<cdot>S + b)\<close> for \<open>a, b < K\<close>, rows first, then columns, then bins.
\<close>

definition spec_block :: "real list list list \<Rightarrow> nat \<Rightarrow> nat \<Rightarrow> nat \<Rightarrow> nat \<Rightarrow> real list" where
  "spec_block grid K S i j =
     concat (concat (map (\<lambda>a. map (\<lambda>b. grid ! (i * S + a) ! (j * S + b)) [0..<K]) [0..<K]))"

definition rect3 :: "real list list list \<Rightarrow> bool" where
  "rect3 grid = (rect grid \<and> rect (concat grid))"

definition grad_field :: "matrix \<Rightarrow> matrix \<Rightarrow> matrix" where
  "grad_field k img = map (\<lambda>i. map (\<lambda>j. spec_gradient k img i j) [0..<ncols img]) [0..<nrows img]"

fun shape :: "ndarray \<Rightarrow> nat list" where
  "shape (A0 x) = []"
| "shape (A1 xs) = [length xs]"
| "shape (A2 m) = [nrows m, ncols m]"

text \<open>The two fields before \<open>squeeze\<close>, as two-dimensional arrays.\<close>

definition magnitude_field :: "matrix \<Rightarrow> matrix" where
  "magnitude_field img =
     map2 (map2 (+)) (map (map (\<lambda>x. x\<^sup>2)) (grad_field SOBEL_X_KERNEL img))
                     (map (map (\<lambda>y. y\<^sup>2)) (grad_field SOBEL_Y_KERNEL img))"

definition orientation_field :: "matrix \<Rightarrow> matrix" where
  "orientation_field img =
     map2 (map2 arctan2) (grad_field SOBEL_Y_KERNEL img) (grad_field SOBEL_X_KERNEL img)"

text \<open>
  The specification's wording of the binning rule: bin \<open>k\<close> is the half-open interval
  \<open>[bins[k], bins[k+1])\<close>, and the last bin is closed on both ends. The weight of a bin
  is the sum of the weights of the values in it.
\<close>

definition in_bin :: "real list \<Rightarrow> nat \<Rightarrow> real \<Rightarrow> bool" where
  "in_bin bins k v =
     (k + 1 < length bins \<and> bins ! k \<le> v \<and>
      (v < bins ! (k + 1) \<or> (k + 2 = length bins \<and> v = bins ! (k + 1))))"

definition bin_weight :: "real list \<Rightarrow> nat \<Rightarrow> (real \<times> real) list \<Rightarrow> real" where
  "bin_weight bins k vws = (\<Sum>vw\<leftarrow>vws. if in_bin bins k (fst vw) then snd vw else 0)"

text \<open>
  The specification's wording of the bin edges for \<open>B\<close> bins: \<open>B + 1\<close> values from
  \<open>-\<pi> - \<pi>/8\<close> on, each \<open>2\<pi>/B\<close> after the one before.
\<close>

definition bin_ticks_of :: "nat \<Rightarrow> real list" where
  "bin_ticks_of B = map (\<lambda>k. - pi - pi / 8 + real k * (2 * pi / real B)) [0..<B + 1]"

text \<open>
  The cell \<open>(i, j)\<close> of a two-dimensional array for cell size \<open>c\<close>, and the histogram of
  the cell \<open>(i, j)\<close> of an image: the specification's wording of one entry of the grid.
\<close>

definition cell_of :: "matrix \<Rightarrow> nat \<Rightarrow> nat \<Rightarrow> nat \<Rightarrow> matrix" where
  "cell_of m c i j = map (\<lambda>row. slice row (j * c) ((j + 1) * c)) (slice m (i * c) ((i + 1) * c))"

definition cell_histogram :: "matrix \<Rightarrow> nat \<Rightarrow> nat \<Rightarrow> nat \<Rightarrow> real list" where
  "cell_histogram img c i j =
     foldl (hist_add (bin_ticks_of 8)) (replicate 8 0)
       (zip (map around5 (concat (cell_of (orientation_field img) c i j)))
            (concat (cell_of (magnitude_field img) c i j)))"

section \<open>Gradient estimation\<close>

lemma ncols_Cons [simp]: "ncols (r # m) = length r" by (simp add: ncols_def)
lemma ncols_Nil [simp]: "ncols [] = 0" by (simp add: ncols_def)

lemma rect_nth: "rect m \<Longrightarrow> i < length m \<Longrightarrow> length (m ! i) = ncols m"
  by (simp add: rect_def list_all_length)

lemma nrows_zero_pad: "nrows (zero_pad p img) = nrows img + 2 * p"
  by (simp add: zero_pad_def nrows_def Let_def)

lemma ncols_zero_pad: "rect img \<Longrightarrow> 0 < p \<Longrightarrow> ncols (zero_pad p img) = ncols img + 2 * p"
  by (cases p) (simp_all add: zero_pad_def Let_def)

lemma zero_pad1_nth:
  assumes "rect img" "r < nrows img + 2" "c < ncols img + 2"
  shows "zero_pad (Suc 0) img ! r ! c = pixel0 img (int r - 1) (int c - 1)"
proof -
  let ?z = "replicate (ncols img + 2) (0::real)"
  have zp: "zero_pad (Suc 0) img = ?z # map (\<lambda>r. 0 # r @ [0]) img @ [?z]"
    by (simp add: zero_pad_def Let_def)
  consider "r = 0" | "1 \<le> r \<and> r \<le> nrows img" | "r = nrows img + 1"
    using assms(2) by linarith
  then show ?thesis
  proof cases
    case 1
    have "?z ! c = 0" using assms(3) by (metis nth_replicate)
    then show ?thesis using 1 by (simp add: zp pixel0_def del: replicate_Suc)
  next
    case 2
    then obtain r' where r': "r = Suc r'" "r' < length img"
      by (cases r) (auto simp: nrows_def)
    have len: "length (img ! r') = ncols img" using rect_nth[OF assms(1) r'(2)] .
    have row: "zero_pad (Suc 0) img ! r = 0 # (img ! r') @ [0]"
      using r' by (simp add: zp nth_append)
    consider "c = 0" | "1 \<le> c \<and> c \<le> ncols img" | "c = ncols img + 1"
      using assms(3) by linarith
    then show ?thesis
    proof cases
      case 1
      then show ?thesis using row by (simp add: pixel0_def)
    next
      case 2
      then obtain c' where c': "c = Suc c'" "c' < ncols img" by (cases c) auto
      then show ?thesis using r' len row
        by (simp add: pixel0_def nth_append nrows_def)
    next
      case 3
      then show ?thesis using len row by (simp add: pixel0_def nth_append)
    qed
  next
    case 3
    have "?z ! c = 0" using assms(3) by (metis nth_replicate)
    then show ?thesis using 3
      by (simp add: zp pixel0_def nth_append nrows_def del: replicate_Suc)
  qed
qed

lemma conv2d_sobel:
  assumes "rect img" "1 \<le> nrows img" "1 \<le> ncols img" "nrows k = 3" "ncols k = 3"
  shows "conv2d (dt, img) (dt, k) 1 =
     Inr (map (\<lambda>i. map (\<lambda>j. spec_gradient k img i j) [0..<ncols img]) [0..<nrows img])"
proof -
  have H: "nrows (zero_pad 1 img) = nrows img + 2" by (simp add: nrows_zero_pad)
  have W: "ncols (zero_pad 1 img) = ncols img + 2" using assms(1) by (simp add: ncols_zero_pad)
  have entry: "(\<Sum>a\<leftarrow>[0..<3]. \<Sum>b\<leftarrow>[0..<3]. k ! a ! b * zero_pad 1 img ! (i + a) ! (j + b))
      = spec_gradient k img i j" if "i < nrows img" "j < ncols img" for i j
  proof -
    have "zero_pad 1 img ! (i + a) ! (j + b) = pixel0 img (int i + int a - 1) (int j + int b - 1)"
      if "a < 3" "b < 3" for a b
      using zero_pad1_nth[OF assms(1), of "i + a" "j + b"] that \<open>i < nrows img\<close> \<open>j < ncols img\<close>
      by simp
    then show ?thesis
      unfolding spec_gradient_def
      by (intro arg_cong[where f = sum_list] map_cong refl) simp
  qed
  have body: "map (\<lambda>i. map (\<lambda>j.
        (\<Sum>a\<leftarrow>[0..<3]. \<Sum>b\<leftarrow>[0..<3]. k ! a ! b * zero_pad 1 img ! (i + a) ! (j + b)))
        [0..<ncols img]) [0..<nrows img]
      = map (\<lambda>i. map (\<lambda>j. spec_gradient k img i j) [0..<ncols img]) [0..<nrows img]"
    by (intro map_cong refl) (simp only: entry atLeastLessThan_iff set_upt)
  have ar: "\<not> (nrows img + 2 < 3 \<or> ncols img + 2 < 3)"
    "ncols img + 2 - 3 + 1 = ncols img" "nrows img + 2 - 3 + 1 = nrows img"
    using assms(2,3) by auto
  show ?thesis
    by (simp only: conv2d_def Let_def fst_conv snd_conv simp_thms H W assms(4,5) ar if_False body)
qed

lemma conv2d_dtype: "fst input \<noteq> fst weight \<Longrightarrow> conv2d input weight p = Inl RuntimeError"
  by (simp add: conv2d_def Let_def)

lemma conv2d_too_small:
  "nrows (zero_pad p (snd input)) < nrows (snd weight)
     \<or> ncols (zero_pad p (snd input)) < ncols (snd weight) \<Longrightarrow>
   conv2d input weight p = Inl RuntimeError"
  by (auto simp add: conv2d_def Let_def)

lemma squeeze_A2: "2 \<le> nrows m \<Longrightarrow> 2 \<le> ncols m \<Longrightarrow> squeeze m = A2 m"
  by (simp add: squeeze_def)

lemma sobel_dims [simp]:
  "nrows SOBEL_X_KERNEL = 3" "ncols SOBEL_X_KERNEL = 3"
  "nrows SOBEL_Y_KERNEL = 3" "ncols SOBEL_Y_KERNEL = 3"
  "length SOBEL_X_KERNEL = 3" "length SOBEL_Y_KERNEL = 3"
  by (simp_all add: SOBEL_X_KERNEL_def SOBEL_Y_KERNEL_def nrows_def)


lemma nrows_grad_field [simp]: "nrows (grad_field k img) = nrows img"
  by (simp add: grad_field_def nrows_def)

lemma ncols_grad_field [simp]: "ncols (grad_field k img) = (if nrows img = 0 then 0 else ncols img)"
  by (cases "nrows img") (simp_all add: grad_field_def ncols_def upt_rec[of 0] del: upt_Suc)

lemma rect_grad_field [simp]: "rect (grad_field k img)"
  by (cases "nrows img") (auto simp add: rect_def list_all_iff grad_field_def ncols_def upt_rec[of 0] simp del: upt_Suc)

lemma grad_field_nth:
  "i < nrows img \<Longrightarrow> j < ncols img \<Longrightarrow> grad_field k img ! i ! j = spec_gradient k img i j"
  by (simp add: grad_field_def)

lemma compute_image_gradients_nonempty:
  assumes "rect img" "1 \<le> nrows img" "1 \<le> ncols img"
  shows "compute_image_gradients (Float32, img) =
     Inr (squeeze (grad_field SOBEL_X_KERNEL img), squeeze (grad_field SOBEL_Y_KERNEL img))"
proof -
  have p: "(length SOBEL_X_KERNEL - 1) div 2 = 1" "(length SOBEL_Y_KERNEL - 1) div 2 = 1"
    by simp_all
  have cx: "conv2d (Float32, img) (Float32, SOBEL_X_KERNEL) 1 = Inr (grad_field SOBEL_X_KERNEL img)"
    unfolding grad_field_def by (rule conv2d_sobel[OF assms]) simp_all
  have cy: "conv2d (Float32, img) (Float32, SOBEL_Y_KERNEL) 1 = Inr (grad_field SOBEL_Y_KERNEL img)"
    unfolding grad_field_def by (rule conv2d_sobel[OF assms]) simp_all
  show ?thesis
    by (simp only: compute_image_gradients_def KERNEL_DTYPE_def Let_def p cx cy sum.case)
qed

lemma compute_image_gradients_fails:
  assumes "rect img" "dt \<noteq> Float32 \<or> nrows img = 0 \<or> ncols img = 0"
  shows "compute_image_gradients (dt, img) = Inl RuntimeError"
proof -
  have p: "(length SOBEL_X_KERNEL - 1) div 2 = 1"
    by simp
  have "conv2d (dt, img) (Float32, SOBEL_X_KERNEL) 1 = Inl RuntimeError"
  proof (cases "dt = Float32")
    case False
    then show ?thesis by (intro conv2d_dtype) simp
  next
    case True
    then have "nrows (zero_pad 1 img) < 3 \<or> ncols (zero_pad 1 img) < 3"
      using assms by (auto simp: nrows_zero_pad ncols_zero_pad)
    then show ?thesis by (intro conv2d_too_small) simp
  qed
  then show ?thesis
    by (simp only: compute_image_gradients_def KERNEL_DTYPE_def Let_def p sum.case)
qed

lemma gradients_2x2_fields:
  "squeeze (grad_field [[-1, 0, 1], [-2, 0, 2], [-1, 0, 1]] [[1, 2], [3, 4]]) = A2 [[8, -5], [10, -7]]"
  "squeeze (grad_field [[1, 2, 1], [0, 0, 0], [-1, -2, -1]] [[1, 2], [3, 4]]) = A2 [[-10, -11], [4, 5]]"
  by code_simp+

text \<open>
  C4 (amended). \<open>compute_image_gradients\<close> checks no minimum size. For a rectangular
  float32 image with at least one row and one column, also one smaller than 3 by 3, it
  returns the gradients: the two kernels applied to the neighbourhood of each pixel, a
  pixel outside the image counting as zero, with the axes of size 1 removed. It
  fails, with the error of conv2d, when the image has no row or no column or when its
  element type is not float32.
\<close>

theorem gradients_no_size_check:
  assumes "rect img"
  shows "(dt = Float32 \<and> 1 \<le> nrows img \<and> 1 \<le> ncols img \<longrightarrow>
            compute_image_gradients (dt, img) =
              Inr (squeeze (grad_field [[-1, 0, 1], [-2, 0, 2], [-1, 0, 1]] img),
                   squeeze (grad_field [[1, 2, 1], [0, 0, 0], [-1, -2, -1]] img)))
       \<and> (dt \<noteq> Float32 \<or> nrows img = 0 \<or> ncols img = 0 \<longrightarrow>
            compute_image_gradients (dt, img) = Inl RuntimeError)"
proof (intro conjI impI)
  assume "dt = Float32 \<and> 1 \<le> nrows img \<and> 1 \<le> ncols img"
  then show "compute_image_gradients (dt, img) =
      Inr (squeeze (grad_field [[-1, 0, 1], [-2, 0, 2], [-1, 0, 1]] img),
           squeeze (grad_field [[1, 2, 1], [0, 0, 0], [-1, -2, -1]] img))"
    using compute_image_gradients_nonempty[OF assms]
    by (simp add: SOBEL_X_KERNEL_def SOBEL_Y_KERNEL_def)
next
  assume "dt \<noteq> Float32 \<or> nrows img = 0 \<or> ncols img = 0"
  then show "compute_image_gradients (dt, img) = Inl RuntimeError"
    by (rule compute_image_gradients_fails[OF assms])
qed

theorem gradients_no_size_check_witness:
  "rect [[1, 2], [3, 4::real]]
   \<and> compute_image_gradients (Float32, [[1, 2], [3, 4]]) =
       Inr (A2 [[8, -5], [10, -7]], A2 [[-10, -11], [4, 5]])
   \<and> compute_image_gradients (Float64, [[1, 2], [3, 4]]) = Inl RuntimeError
   \<and> compute_image_gradients (Float32, []) = Inl RuntimeError"
proof -
  have h: "rect [[1, 2], [3, 4::real]]" "rect ([] :: matrix)" by (simp_all add: rect_def)
  have a: "compute_image_gradients (Float32, [[1, 2], [3, 4]]) =
       Inr (A2 [[8, -5], [10, -7]], A2 [[-10, -11], [4, 5]])"
    using gradients_no_size_check[OF h(1), of Float32]
    by (simp add: nrows_def gradients_2x2_fields)
  have b: "compute_image_gradients (Float64, [[1, 2], [3, 4]]) = Inl RuntimeError"
    using gradients_no_size_check[OF h(1), of Float64] by simp
  have c: "compute_image_gradients (Float32, []) = Inl RuntimeError"
    using gradients_no_size_check[OF h(2), of Float32] by (simp add: nrows_def)
  show ?thesis using h(1) a b c by simp
qed

text \<open>
  C4 as stated fails: a float32 image of 2 by 2 has fewer than 3 rows, and the gradients
  are returned.
\<close>

theorem gradients_small_image_counterexample:
  "nrows [[1, 2], [3, 4::real]] < 3 \<and>
   compute_image_gradients (Float32, [[1, 2], [3, 4]]) = Inr (A2 [[8, -5], [10, -7]], A2 [[-10, -11], [4, 5]])"
  by code_simp

text \<open>
  C3 (amended). For a rectangular float32 image of at least 3 by 3,
  \<open>compute_image_gradients\<close> returns two arrays of the shape of the image; their values are
  the two fixed kernels applied to the 3 by 3 neighbourhood of each pixel, a pixel outside
  the image counting as zero (padding 1, stride 1, no bias; the kernel is applied as
  conv2d does, without a flip).
\<close>

theorem compute_image_gradients_spec:
  assumes "rect img" "3 \<le> nrows img" "3 \<le> ncols img"
  shows "\<exists>Ix Iy. compute_image_gradients (Float32, img) = Inr (A2 Ix, A2 Iy)
     \<and> nrows Ix = nrows img \<and> ncols Ix = ncols img \<and> rect Ix
     \<and> nrows Iy = nrows img \<and> ncols Iy = ncols img \<and> rect Iy
     \<and> (\<forall>i<nrows img. \<forall>j<ncols img.
          Ix ! i ! j = spec_gradient [[-1, 0, 1], [-2, 0, 2], [-1, 0, 1]] img i j
        \<and> Iy ! i ! j = spec_gradient [[1, 2, 1], [0, 0, 0], [-1, -2, -1]] img i j)"
proof -
  have ne: "1 \<le> nrows img" "1 \<le> ncols img" "nrows img \<noteq> 0" using assms by auto
  have sq: "squeeze (grad_field k img) = A2 (grad_field k img)" for k
    using assms by (intro squeeze_A2) (simp_all add: ne)
  show ?thesis
    using compute_image_gradients_nonempty[OF assms(1) ne(1,2)] ne(3)
    by (simp add: sq grad_field_nth SOBEL_X_KERNEL_def[symmetric] SOBEL_Y_KERNEL_def[symmetric])
qed

theorem compute_image_gradients_spec_witness:
  "rect [[1, 0, 0], [1, 0, 0], [1, 0, 0::real]] \<and>
   (\<exists>Ix Iy. compute_image_gradients (Float32, [[1, 0, 0], [1, 0, 0], [1, 0, 0]]) = Inr (A2 Ix, A2 Iy)
      \<and> nrows Ix = 3 \<and> ncols Ix = 3 \<and> Ix ! 1 ! 1 = - 4 \<and> Iy ! 1 ! 1 = 0)"
proof -
  let ?img = "[[1, 0, 0], [1, 0, 0], [1, 0, 0::real]]"
  have h: "rect ?img" "3 \<le> nrows ?img" "3 \<le> ncols ?img"
    by (simp_all add: rect_def nrows_def)
  have v: "spec_gradient [[-1, 0, 1], [-2, 0, 2], [-1, 0, 1]] ?img 1 1 = - 4"
    "spec_gradient [[1, 2, 1], [0, 0, 0], [-1, -2, -1]] ?img 1 1 = 0"
    by code_simp+
  have n: "nrows ?img = 3" "ncols ?img = 3" by (simp_all add: nrows_def)
  show ?thesis
    using compute_image_gradients_spec[OF h] v h(1) unfolding n by fastforce
qed

text \<open>
  C3 as stated fails: the kernels are float32, so for an image of 3 by 3 of another
  element type, here float64, conv2d raises.
\<close>

theorem gradients_float64_counterexample:
  "3 \<le> nrows [[1, 0, 0], [1, 0, 0], [1, 0, 0::real]]
   \<and> 3 \<le> ncols [[1, 0, 0], [1, 0, 0], [1, 0, 0::real]]
   \<and> compute_image_gradients (Float64, [[1, 0, 0], [1, 0, 0], [1, 0, 0]]) = Inl RuntimeError"
  by (simp add: nrows_def compute_image_gradients_fails rect_def)

section \<open>Magnitude and orientation\<close>

lemma arctan2_range: "- pi < arctan2 y x \<and> arctan2 y x \<le> pi"
proof -
  have b: "- (pi / 2) < arctan (y / x)" "arctan (y / x) < pi / 2"
    by (rule arctan_lbound, rule arctan_ubound)
  have neg: "arctan (y / x) \<le> 0" if "x < 0" "0 \<le> y"
  proof -
    have "y / x \<le> 0" using that by (simp add: divide_nonneg_neg)
    then show ?thesis by simp
  qed
  have pos: "0 < arctan (y / x)" if "x < 0" "y < 0"
  proof -
    have "0 < y / x" using that by (simp add: divide_neg_neg)
    then show ?thesis by simp
  qed
  have p: "0 < pi" by simp
  show ?thesis
    unfolding arctan2_def using b neg pos p by (auto split: if_splits) 
qed

lemma arctan2_zero: "arctan2 0 0 = 0"
  by (simp add: arctan2_def)

lemma rect_lengths: "rect a \<Longrightarrow> map length a = replicate (nrows a) (ncols a)"
  by (auto simp: rect_def list_all_iff nrows_def intro!: nth_equalityI)

lemma same_dims_lengths:
  assumes "rect a" "rect b" "nrows a = nrows b" "ncols a = ncols b"
  shows "map length a = map length b"
  using assms by (simp add: rect_lengths)

lemma concat_map2:
  "map length a = map length b \<Longrightarrow>
     concat (map2 (map2 f) a b) = map2 f (concat a) (concat b)"
proof (induction a arbitrary: b)
  case Nil
  then show ?case by simp
next
  case (Cons r a)
  then obtain s b' where b: "b = s # b'" by (cases b) auto
  with Cons.prems have l: "length r = length s" "map length a = map length b'" by auto
  show ?case using Cons.IH[OF l(2)] l(1) by (simp add: b)
qed

lemma elems_squeeze: "rect m \<Longrightarrow> elems (squeeze m) = concat m"
proof -
  assume r: "rect m"
  have one: "concat m = m ! 0" if "nrows m = 1"
  proof -
    from that obtain x where "m = [x]" by (cases m) (auto simp: nrows_def)
    then show ?thesis by simp
  qed
  have col: "map (\<lambda>r. r ! 0) m = concat m" if "ncols m = 1"
  proof -
    have "\<forall>x\<in>set m. length x = 1" using r that by (simp add: rect_def list_all_iff)
    then show ?thesis
    proof (induction m)
      case Nil
      then show ?case by simp
    next
      case (Cons x m)
      then obtain v where "x = [v]" by (cases x) auto
      with Cons show ?case by simp
    qed
  qed
  have sc: "[m ! 0 ! 0] = concat m" if "nrows m = 1" "ncols m = 1"
    using col[OF that(2)] one[OF that(1)] that
    by (cases m) (auto simp: nrows_def)
  show ?thesis
    using one col sc by (auto simp: squeeze_def)
qed

lemma map2_dims:
  assumes "map length a = map length b"
  shows "nrows (map2 (map2 f) a b) = nrows a" "ncols (map2 (map2 f) a b) = ncols a"
    "map length (map2 (map2 f) a b) = map length a"
proof -
  have l: "length a = length b" using assms by (metis length_map)
  show "nrows (map2 (map2 f) a b) = nrows a" using l by (simp add: nrows_def)
  show "ncols (map2 (map2 f) a b) = ncols a"
    using assms by (cases a; cases b) (auto simp: ncols_def)
  have e: "length (a ! i) = length (b ! i)" if "i < length a" for i
    using assms l that by (metis nth_map)
  show "map length (map2 (map2 f) a b) = map length a"
    using l e by (intro nth_equalityI) auto
qed


lemma ew2_squeeze:
  assumes "rect a" "rect b" "nrows a = nrows b" "ncols a = ncols b"
  shows "ew2 f (squeeze a) (squeeze b) = Inr (squeeze (map2 (map2 f) a b))"
proof -
  have ml: "map length a = map length b" by (rule same_dims_lengths[OF assms])
  note d = map2_dims[OF ml, of f]
  have la: "length a = length b" using assms(3) by (simp add: nrows_def)
  consider (s) "nrows a = 1" "ncols a = 1" | (r) "nrows a = 1" "ncols a \<noteq> 1"
    | (c) "nrows a \<noteq> 1" "ncols a = 1" | (m) "nrows a \<noteq> 1" "ncols a \<noteq> 1"
    by blast
  then show ?thesis
  proof cases
    case s
    obtain ra rb where ab: "a = [ra]" "b = [rb]"
      using s(1) la by (cases a; cases b; simp add: nrows_def)
    have "length ra = 1" "length rb = 1" using s(2) assms(4) ab by simp_all
    then obtain x y where "ra = [x]" "rb = [y]"
      by (cases ra; cases rb; simp)
    then show ?thesis using ab by (simp add: squeeze_def nrows_def)
  next
    case r
    then obtain x y where xy: "a = [x]" "b = [y]"
      using assms(3) la by (cases a; cases b; simp add: nrows_def)
    then have "length x = length y" using assms(4) by simp
    then show ?thesis using r xy by (simp add: squeeze_def nrows_def)
  next
    case c
    have a1: "\<forall>x\<in>set a. length x = 1" using assms(1) c by (simp add: rect_def list_all_iff)
    have b1: "\<forall>x\<in>set b. length x = 1" using assms(2,4) c by (simp add: rect_def list_all_iff)
    have "map2 f (map (\<lambda>r. r ! 0) a) (map (\<lambda>r. r ! 0) b) = map (\<lambda>r. r ! 0) (map2 (map2 f) a b)"
    proof (rule nth_equalityI)
      show "length (map2 f (map (\<lambda>r. r ! 0) a) (map (\<lambda>r. r ! 0) b)) =
            length (map (\<lambda>r. r ! 0) (map2 (map2 f) a b))" by simp
    next
      fix i assume "i < length (map2 f (map (\<lambda>r. r ! 0) a) (map (\<lambda>r. r ! 0) b))"
      then have i: "i < length a" "i < length b" by simp_all
      then have "length (a ! i) = 1" "length (b ! i) = 1" using a1 b1 by simp_all
      then show "map2 f (map (\<lambda>r. r ! 0) a) (map (\<lambda>r. r ! 0) b) ! i =
          map (\<lambda>r. r ! 0) (map2 (map2 f) a b) ! i"
        using i by simp
    qed
    then show ?thesis using c d assms(3,4) la by (simp add: squeeze_def)
  next
    case m
    then show ?thesis using d assms(3,4) ml by (simp add: squeeze_def)
  qed
qed

lemma ew1_squeeze:
  assumes "rect a"
  shows "ew1 f (squeeze a) = squeeze (map (map f) a)"
proof -
  have n: "nrows (map (map f) a) = nrows a" by (simp add: nrows_def)
  have c: "ncols (map (map f) a) = ncols a" by (cases a) (simp_all add: ncols_def)
  have row: "map f (a ! 0) = map (map f) a ! 0" if "nrows a = 1"
    using that by (simp add: nrows_def)
  have el: "f (a ! 0 ! 0) = map (map f) a ! 0 ! 0" if "nrows a = 1" "ncols a = 1"
    using that by (cases a) (simp_all add: nrows_def ncols_def)
  have col: "map f (map (\<lambda>r. r ! 0) a) = map (\<lambda>r. r ! 0) (map (map f) a)" if "ncols a = 1"
  proof -
    have "\<forall>x\<in>set a. length x = 1" using assms that by (simp add: rect_def list_all_iff)
    then show ?thesis by (auto intro!: nth_equalityI)
  qed
  show ?thesis
    unfolding squeeze_def n c using row el col by auto
qed

lemma rect_map_map: "rect a \<Longrightarrow> rect (map (map f) a)"
  by (cases a) (auto simp: rect_def list_all_iff ncols_def)

lemma rect_map2:
  assumes "rect a" "map length a = map length b"
  shows "rect (map2 (map2 f) a b)"
proof -
  have "map length (map2 (map2 f) a b) = replicate (nrows a) (ncols a)"
    using map2_dims(3)[OF assms(2), of f] rect_lengths[OF assms(1)] by simp
  then have "set (map length (map2 (map2 f) a b)) \<subseteq> {ncols a}"
    by (simp only: set_replicate_conv_if split: if_splits) simp
  then have "\<forall>x\<in>set (map2 (map2 f) a b). length x = ncols a"
    by (simp only: set_map) blast
  then show ?thesis
    using map2_dims(2)[OF assms(2), of f] by (simp add: rect_def list_all_iff)
qed


lemma grad_field_lengths:
  "map length (grad_field k img) = replicate (nrows img) (ncols img)"
  by (simp add: grad_field_def comp_def map_replicate_const)

lemma grad_field_lengths_eq:
  "map length (grad_field k img) = map length (grad_field k' img)"
  by (simp add: grad_field_lengths)

lemma sq_field_lengths:
  "map length (map (map f) (grad_field k img)) = replicate (nrows img) (ncols img)"
  by (simp add: grad_field_def comp_def map_replicate_const)

lemma field_dims:
  "nrows (magnitude_field img) = nrows img"
  "nrows (orientation_field img) = nrows img"
  "map length (magnitude_field img) = replicate (nrows img) (ncols img)"
  "map length (orientation_field img) = replicate (nrows img) (ncols img)"
proof -
  have m: "map length (map (map (\<lambda>x. x\<^sup>2)) (grad_field SOBEL_X_KERNEL img))
         = map length (map (map (\<lambda>y. y\<^sup>2)) (grad_field SOBEL_Y_KERNEL img))"
    by (simp only: sq_field_lengths)
  show "nrows (magnitude_field img) = nrows img"
    unfolding magnitude_field_def map2_dims(1)[OF m] by (simp add: nrows_def grad_field_def)
  show "nrows (orientation_field img) = nrows img"
    unfolding orientation_field_def map2_dims(1)[OF grad_field_lengths_eq] by simp
  show "map length (magnitude_field img) = replicate (nrows img) (ncols img)"
    unfolding magnitude_field_def map2_dims(3)[OF m] by (rule sq_field_lengths)
  show "map length (orientation_field img) = replicate (nrows img) (ncols img)"
    unfolding orientation_field_def map2_dims(3)[OF grad_field_lengths_eq]
    by (rule grad_field_lengths)
qed

lemma rect_fields: "rect (magnitude_field img)" "rect (orientation_field img)"
proof -
  have m: "map length (map (map (\<lambda>x. x\<^sup>2)) (grad_field SOBEL_X_KERNEL img))
         = map length (map (map (\<lambda>y. y\<^sup>2)) (grad_field SOBEL_Y_KERNEL img))"
    by (simp only: sq_field_lengths)
  show "rect (magnitude_field img)"
    unfolding magnitude_field_def by (rule rect_map2[OF rect_map_map[OF rect_grad_field] m])
  show "rect (orientation_field img)"
    unfolding orientation_field_def by (rule rect_map2[OF rect_grad_field grad_field_lengths_eq])
qed

lemma compute_magnitudes_and_orientations_nonempty:
  assumes "rect img" "1 \<le> nrows img" "1 \<le> ncols img"
  shows "compute_magnitudes_and_orientations (Float32, img) =
     Inr (squeeze (orientation_field img), squeeze (magnitude_field img))"
proof -
  let ?gx = "grad_field SOBEL_X_KERNEL img" and ?gy = "grad_field SOBEL_Y_KERNEL img"
  have nz: "nrows img \<noteq> 0" using assms(2) by simp
  have sq: "ew1 f (squeeze (grad_field k img)) = squeeze (map (map f) (grad_field k img))"
    for f :: "real \<Rightarrow> real" and k
    by (rule ew1_squeeze[OF rect_grad_field])
  have dims: "nrows (map (map f) (grad_field k img)) = nrows img"
             "ncols (map (map f) (grad_field k img)) = ncols img"
    for f :: "real \<Rightarrow> real" and k
    using nz by (simp_all add: nrows_def ncols_def grad_field_def upt_rec[of 0] del: upt_Suc split: list.splits)
  have mag: "ew2 (+) (ew1 (\<lambda>x. x\<^sup>2) (squeeze ?gx)) (ew1 (\<lambda>y. y\<^sup>2) (squeeze ?gy))
      = Inr (squeeze (magnitude_field img))"
    unfolding sq magnitude_field_def
    by (rule ew2_squeeze) (simp_all only: rect_map_map[OF rect_grad_field] dims)
  have ori: "ew2 arctan2 (squeeze ?gy) (squeeze ?gx) = Inr (squeeze (orientation_field img))"
    unfolding orientation_field_def
    by (rule ew2_squeeze) (simp_all add: nz)
  show ?thesis
    unfolding compute_magnitudes_and_orientations_def
      compute_image_gradients_nonempty[OF assms]
    by (simp only: sum.case prod.case mag ori)
qed

lemma elems_fields:
  "concat (magnitude_field img) =
     map2 (\<lambda>x y. x\<^sup>2 + y\<^sup>2) (concat (grad_field SOBEL_X_KERNEL img)) (concat (grad_field SOBEL_Y_KERNEL img))"
  "concat (orientation_field img) =
     map2 (\<lambda>x y. arctan2 y x) (concat (grad_field SOBEL_X_KERNEL img)) (concat (grad_field SOBEL_Y_KERNEL img))"
proof -
  let ?gx = "grad_field SOBEL_X_KERNEL img" and ?gy = "grad_field SOBEL_Y_KERNEL img"
  have m: "map length (map (map (\<lambda>x. x\<^sup>2)) ?gx) = map length (map (map (\<lambda>y. y\<^sup>2)) ?gy)"
    by (simp only: sq_field_lengths)
  have l: "length (concat ?gx) = length (concat ?gy)"
    by (simp add: length_concat grad_field_lengths)
  have "concat (magnitude_field img) =
      map2 (+) (map (\<lambda>x. x\<^sup>2) (concat ?gx)) (map (\<lambda>y. y\<^sup>2) (concat ?gy))"
    unfolding magnitude_field_def concat_map2[OF m] by (simp add: map_concat)
  also have "\<dots> = map2 (\<lambda>x y. x\<^sup>2 + y\<^sup>2) (concat ?gx) (concat ?gy)"
    by (simp add: zip_map_map split_beta)
  finally show "concat (magnitude_field img) =
     map2 (\<lambda>x y. x\<^sup>2 + y\<^sup>2) (concat ?gx) (concat ?gy)" .
  have "concat (orientation_field img) = map2 arctan2 (concat ?gy) (concat ?gx)"
    unfolding orientation_field_def by (rule concat_map2[OF grad_field_lengths_eq])
  also have "\<dots> = map2 (\<lambda>x y. arctan2 y x) (concat ?gx) (concat ?gy)"
    using l by (intro nth_equalityI) simp_all
  finally show "concat (orientation_field img) =
     map2 (\<lambda>x y. arctan2 y x) (concat ?gx) (concat ?gy)" .
qed

text \<open>
  C8 (amended). For every rectangular float32 image with at least one pixel,
  \<open>compute_magnitudes_and_orientations\<close> returns a magnitude array and an orientation
  array of the shape of the gradients, with magnitude \<open>Ix\<^sup>2 + Iy\<^sup>2\<close> (no square root)
  and orientation \<open>arctan2 Iy Ix\<close> at every pixel; every magnitude is at least 0, every
  orientation lies in \<open>(-\<pi>, \<pi>]\<close>, and \<open>arctan2 0 0 = 0\<close>.
\<close>

theorem magnitudes_and_orientations_spec:
  assumes "rect img" "1 \<le> nrows img" "1 \<le> ncols img"
  shows "\<exists>Ix Iy orientation magnitude.
      compute_image_gradients (Float32, img) = Inr (Ix, Iy)
    \<and> compute_magnitudes_and_orientations (Float32, img) = Inr (orientation, magnitude)
    \<and> shape magnitude = shape Ix \<and> shape orientation = shape Ix
    \<and> elems magnitude = map2 (\<lambda>x y. x\<^sup>2 + y\<^sup>2) (elems Ix) (elems Iy)
    \<and> elems orientation = map2 (\<lambda>x y. arctan2 y x) (elems Ix) (elems Iy)
    \<and> (\<forall>v\<in>set (elems magnitude). 0 \<le> v)
    \<and> (\<forall>v\<in>set (elems orientation). - pi < v \<and> v \<le> pi)
    \<and> arctan2 0 0 = 0"
proof -
  let ?gx = "grad_field SOBEL_X_KERNEL img" and ?gy = "grad_field SOBEL_Y_KERNEL img"
  have nz: "nrows img \<noteq> 0" using assms(2) by simp
  have e: "elems (squeeze (magnitude_field img)) = concat (magnitude_field img)"
    "elems (squeeze (orientation_field img)) = concat (orientation_field img)"
    "elems (squeeze ?gx) = concat ?gx" "elems (squeeze ?gy) = concat ?gy"
    by (simp_all only: elems_squeeze rect_fields rect_grad_field)
  have em: "elems (squeeze (magnitude_field img)) =
      map2 (\<lambda>x y. x\<^sup>2 + y\<^sup>2) (elems (squeeze ?gx)) (elems (squeeze ?gy))"
    and eo: "elems (squeeze (orientation_field img)) =
      map2 (\<lambda>x y. arctan2 y x) (elems (squeeze ?gx)) (elems (squeeze ?gy))"
    by (simp_all only: e elems_fields)
  have nonneg: "\<forall>v\<in>set (elems (squeeze (magnitude_field img))). 0 \<le> v"
    unfolding e elems_fields by (auto simp: set_zip)
  have range: "\<forall>v\<in>set (elems (squeeze (orientation_field img))). - pi < v \<and> v \<le> pi"
    unfolding e elems_fields using arctan2_range by (auto simp: set_zip)
  have sh: "shape (squeeze a) = shape (squeeze b)"
    if "nrows a = nrows b" "ncols a = ncols b" for a b :: matrix
    using that by (cases a; cases b) (auto simp: squeeze_def nrows_def)
  have c: "ncols m = ncols img" if "map length m = replicate (nrows img) (ncols img)" for m :: matrix
    using that nz by (cases m) (auto simp: ncols_def nrows_def Cons_replicate_eq)
  have shm: "shape (squeeze (magnitude_field img)) = shape (squeeze ?gx)"
    by (rule sh) (simp_all add: field_dims c nz)
  have sho: "shape (squeeze (orientation_field img)) = shape (squeeze ?gx)"
    by (rule sh) (simp_all add: field_dims c nz)
  from compute_image_gradients_nonempty[OF assms]
    compute_magnitudes_and_orientations_nonempty[OF assms]
    shm sho em eo nonneg range arctan2_zero
  show ?thesis by blast
qed


lemma gradients_2x2:
  "compute_image_gradients (Float32, [[1, 2], [3, 4]]) = Inr (A2 [[8, -5], [10, -7]], A2 [[-10, -11], [4, 5]])"
  by code_simp

theorem magnitudes_and_orientations_spec_witness:
  "rect [[1, 2], [3, 4::real]] \<and>
   (\<exists>orientation magnitude.
      compute_magnitudes_and_orientations (Float32, [[1, 2], [3, 4]]) = Inr (orientation, magnitude)
    \<and> shape magnitude = [2, 2] \<and> elems magnitude = [164, 146, 116, 74]
    \<and> list_all (\<lambda>v. - pi < v \<and> v \<le> pi) (elems orientation))"
proof -
  let ?img = "[[1, 2], [3, 4::real]]"
  have h: "rect ?img" "1 \<le> nrows ?img" "1 \<le> ncols ?img"
    by (simp_all add: rect_def nrows_def)
  from magnitudes_and_orientations_spec[OF h] obtain Ix Iy orientation magnitude where
    g: "compute_image_gradients (Float32, ?img) = Inr (Ix, Iy)"
    and r: "compute_magnitudes_and_orientations (Float32, ?img) = Inr (orientation, magnitude)"
    and s: "shape magnitude = shape Ix"
    and m: "elems magnitude = map2 (\<lambda>x y. x\<^sup>2 + y\<^sup>2) (elems Ix) (elems Iy)"
    and b: "\<forall>v\<in>set (elems orientation). - pi < v \<and> v \<le> pi"
    by blast
  from g have xy: "Ix = A2 [[8, -5], [10, -7]]" "Iy = A2 [[-10, -11], [4, 5]]"
    by (simp_all add: gradients_2x2)
  have "shape magnitude = [2, 2]" "elems magnitude = [164, 146, 116, 74]"
    using s m by (simp_all add: xy nrows_def)
  moreover have "list_all (\<lambda>v. - pi < v \<and> v \<le> pi) (elems orientation)"
    using b by (simp add: list_all_iff)
  ultimately show ?thesis using h(1) r by blast
qed

lemma compute_magnitudes_and_orientations_fails:
  assumes "rect img" "dt \<noteq> Float32 \<or> nrows img = 0 \<or> ncols img = 0"
  shows "compute_magnitudes_and_orientations (dt, img) = Inl RuntimeError"
  by (simp add: compute_magnitudes_and_orientations_def compute_image_gradients_fails[OF assms])

text \<open>
  C8 as stated fails for an image that is not float32: the gradient step raises, here
  for a float64 image of 2 by 2.
\<close>

theorem magnitudes_float64_counterexample:
  "compute_magnitudes_and_orientations (Float64, [[1, 2], [3, 4]]) = Inl RuntimeError"
  by (simp add: compute_magnitudes_and_orientations_fails rect_def)


section \<open>Histograms of all cells: errors\<close>

lemma for_loop_error:
  assumes "\<And>x s. x \<in> set xs \<Longrightarrow> body x s \<noteq> Inl e"
  shows "for_loop xs body s \<noteq> Inl e"
  using assms
proof (induction xs arbitrary: s)
  case Nil
  then show ?case by simp
next
  case (Cons x xs)
  show ?case
  proof (cases "body x s")
    case (Inl e')
    then show ?thesis using Cons.prems[of x s] by auto
  next
    case (Inr s')
    then show ?thesis using Cons.IH[of s'] Cons.prems by simp
  qed
qed

lemma np_histogram_no_assert: "np_histogram a bins w \<noteq> Inl AssertionError"
  by (simp add: np_histogram_def)

lemma create_histogram_no_assert: "create_histogram m ori nb \<noteq> Inl AssertionError"
  unfolding create_histogram_def Let_def
  using np_histogram_no_assert by (auto split: sum.splits)

lemma cell_step_no_assert: "cell_step ori mag cs nb i j st \<noteq> Inl AssertionError"
  unfolding cell_step_def
  using create_histogram_no_assert
  by (auto simp: slice2_def set_item_def Let_def split: sum.splits ndarray.splits prod.splits if_splits)

lemma create_image_histograms_fails:
  assumes "rect img" "dt \<noteq> Float32 \<or> nrows img = 0 \<or> ncols img = 0"
  shows "create_image_histograms (dt, img) cell_size = Inl RuntimeError"
  by (simp add: create_image_histograms_def Let_def
      compute_magnitudes_and_orientations_fails[OF assms])

text \<open>
  C9 (amended). For a rectangular float32 image with at least one pixel and a cell size
  other than 0: when the row count or the column count is not a multiple of the cell
  size, \<open>create_image_histograms\<close> fails with the error of its two assertions (the code's
  form of the unaligned-dimensions error); when both are multiples it does not fail with
  that error. A float32 image of 10 by 10 with cell size 3 is such a failure. For an image
  of another element type the gradient step, which runs before the assertions, fails
  first, with the error of conv2d.
\<close>

theorem unaligned_dimensions_error:
  assumes "rect img" "1 \<le> nrows img" "1 \<le> ncols img" "cell_size \<noteq> 0"
  shows "(int (nrows img) mod cell_size \<noteq> 0 \<or> int (ncols img) mod cell_size \<noteq> 0
            \<longrightarrow> create_image_histograms (Float32, img) cell_size = Inl AssertionError)
       \<and> (int (nrows img) mod cell_size = 0 \<and> int (ncols img) mod cell_size = 0
            \<longrightarrow> create_image_histograms (Float32, img) cell_size \<noteq> Inl AssertionError)
       \<and> (\<forall>dt. dt \<noteq> Float32
            \<longrightarrow> create_image_histograms (dt, img) cell_size = Inl RuntimeError)"
proof -
  have loop: "for_loop is (\<lambda>i. for_loop js (\<lambda>j. cell_step ori mag cs nb i j)) st
      \<noteq> Inl AssertionError" for "is" js ori mag cs nb st
    by (intro for_loop_error cell_step_no_assert)
  have ab: "(int (nrows img) mod cell_size \<noteq> 0 \<or> int (ncols img) mod cell_size \<noteq> 0
            \<longrightarrow> create_image_histograms (Float32, img) cell_size = Inl AssertionError)
       \<and> (int (nrows img) mod cell_size = 0 \<and> int (ncols img) mod cell_size = 0
            \<longrightarrow> create_image_histograms (Float32, img) cell_size \<noteq> Inl AssertionError)"
    unfolding create_image_histograms_def Let_def
      compute_magnitudes_and_orientations_nonempty[OF assms(1-3)]
    using assms(4) loop by (simp)
  have c: "\<forall>dt. dt \<noteq> Float32
      \<longrightarrow> create_image_histograms (dt, img) cell_size = Inl RuntimeError"
    by (simp add: create_image_histograms_fails[OF assms(1)])
  show ?thesis
    using ab c by - (rule conjI, erule conjunct1, rule conjI, erule conjunct2, assumption)
qed

lemma zero_image_rect: "rect (replicate n (replicate m (0::real)))"
  by (cases n) (simp_all add: rect_def list_all_iff)

lemma ncols_replicate: "0 < n \<Longrightarrow> ncols (replicate n r) = length r"
  by (cases n) simp_all

theorem unaligned_dimensions_error_witness:
  "create_image_histograms (Float32, replicate 10 (replicate 10 0)) 3 = Inl AssertionError
   \<and> create_image_histograms (Float32, replicate 9 (replicate 9 0)) 3 \<noteq> Inl AssertionError
   \<and> create_image_histograms (Int64, replicate 9 (replicate 9 0)) 3 = Inl RuntimeError"
proof -
  have a: "create_image_histograms (Float32, replicate 10 (replicate 10 0)) 3 = Inl AssertionError"
    using unaligned_dimensions_error[of "replicate 10 (replicate 10 0)" 3]
    by (simp add: zero_image_rect nrows_def ncols_replicate)
  have b: "create_image_histograms (Float32, replicate 9 (replicate 9 0)) 3 \<noteq> Inl AssertionError"
    "create_image_histograms (Int64, replicate 9 (replicate 9 0)) 3 = Inl RuntimeError"
    using unaligned_dimensions_error[of "replicate 9 (replicate 9 0)" 3]
    by (simp_all add: zero_image_rect nrows_def ncols_replicate)
  show ?thesis using a b by simp
qed

text \<open>
  C9 as stated fails for an image that is not float32: a float64 image of 10 by 10 with
  cell size 3 fails in the gradient step, before the assertions, with another error.
\<close>

theorem unaligned_float64_counterexample:
  "int (nrows (replicate 10 (replicate 10 (0::real)))) mod 3 \<noteq> 0
   \<and> create_image_histograms (Float64, replicate 10 (replicate 10 0)) 3 = Inl RuntimeError"
  by (simp add: nrows_def create_image_histograms_fails zero_image_rect)

section \<open>Histogram of one cell\<close>

lemma find_bin_Some_in_bin: "find_bin bins v = Some k \<Longrightarrow> in_bin bins k v"
proof (induction bins v arbitrary: k rule: find_bin.induct)
  case (1 a b es v)
  show ?case
  proof (cases "a \<le> v \<and> (v < b \<or> (es = [] \<and> v = b))")
    case True
    with 1 have "k = 0" by simp
    with True show ?thesis by (auto simp: in_bin_def)
  next
    case False
    with 1(2) obtain k' where k': "find_bin (b # es) v = Some k'" "k = Suc k'" by auto
    from 1(1)[OF False k'(1)] show ?thesis
      by (simp add: in_bin_def k'(2))
  qed
qed (simp_all)

lemma in_bin_find_bin: "sorted bins \<Longrightarrow> in_bin bins k v \<Longrightarrow> find_bin bins v = Some k"
proof (induction bins v arbitrary: k rule: find_bin.induct)
  case (1 a b es v)
  show ?case
  proof (cases k)
    case 0
    with 1(3) show ?thesis by (auto simp: in_bin_def)
  next
    case (Suc k')
    with 1(3) have ib: "in_bin (b # es) k' v" by (simp add: in_bin_def)
    have sb: "sorted (b # es)" using 1(2) by simp
    have kl: "k' + 1 < length (b # es)" and lo: "(b # es) ! k' \<le> v"
      using ib by (simp_all add: in_bin_def)
    have "b \<le> (b # es) ! k'" using sorted_nth_mono[OF sb, of 0 k'] kl by simp
    then have "b \<le> v" "es \<noteq> []" using lo kl by auto
    then have "\<not> (a \<le> v \<and> (v < b \<or> (es = [] \<and> v = b)))" by auto
    moreover have "find_bin (b # es) v = Some k'"
      using 1(1)[OF calculation _ ib] 1(2) by simp
    ultimately show ?thesis by (simp add: Suc)
  qed
qed (simp_all add: in_bin_def)

lemma find_bin_iff: "sorted bins \<Longrightarrow> find_bin bins v = Some k \<longleftrightarrow> in_bin bins k v"
  using find_bin_Some_in_bin in_bin_find_bin by blast


lemma find_bin_less: "find_bin bins v = Some k \<Longrightarrow> k < length bins - 1"
  by (drule find_bin_Some_in_bin) (auto simp add: in_bin_def)

lemma length_hist_add [simp]: "length (hist_add bins acc vw) = length acc"
  by (simp add: hist_add_def split: option.splits)

lemma length_foldl_hist_add [simp]: "length (foldl (hist_add bins) acc vws) = length acc"
  by (induction vws arbitrary: acc) simp_all

lemma hist_add_nth:
  assumes "sorted bins" "length acc = length bins - 1" "k < length acc"
  shows "hist_add bins acc vw ! k = acc ! k + (if in_bin bins k (fst vw) then snd vw else 0)"
proof (cases "find_bin bins (fst vw)")
  case None
  then have "\<not> in_bin bins k (fst vw)" using in_bin_find_bin[OF assms(1)] by fastforce
  with None show ?thesis by (simp add: hist_add_def)
next
  case (Some k')
  then have k': "k' < length acc" using find_bin_less assms(2) by simp
  have "in_bin bins k (fst vw) \<longleftrightarrow> k = k'"
    using Some find_bin_iff[OF assms(1), of "fst vw" k] find_bin_iff[OF assms(1), of "fst vw" k']
    by auto
  then show ?thesis using Some k' assms(3) by (auto simp: hist_add_def)
qed

lemma foldl_hist_add_nth:
  assumes "sorted bins" "length acc = length bins - 1" "k < length acc"
  shows "foldl (hist_add bins) acc vws ! k = acc ! k + bin_weight bins k vws"
  using assms(2,3)
proof (induction vws arbitrary: acc)
  case Nil
  then show ?case by (simp add: bin_weight_def)
next
  case (Cons vw vws)
  have "foldl (hist_add bins) (hist_add bins acc vw) vws ! k
      = hist_add bins acc vw ! k + bin_weight bins k vws"
    using Cons.prems by (intro Cons.IH) simp_all
  then show ?case
    using hist_add_nth[OF assms(1) Cons.prems] by (simp add: bin_weight_def)
qed

lemma linspace_nth:
  "k < num \<Longrightarrow> linspace start stop num ! k = start + real k * ((stop - start) / real (num - 1))"
  by (auto simp add: linspace_def)

lemma length_linspace [simp]: "length (linspace start stop num) = num"
  by (simp add: linspace_def)

lemma sorted_linspace: "start \<le> stop \<Longrightarrow> sorted (linspace start stop num)"
proof -
  assume le: "start \<le> stop"
  have "linspace start stop num ! i \<le> linspace start stop num ! j"
    if "i \<le> j" "j < num" for i j
  proof -
    have "0 \<le> (stop - start) / real (num - 1)" using le by simp
    then have "real i * ((stop - start) / real (num - 1)) \<le> real j * ((stop - start) / real (num - 1))"
      using that(1) by (intro mult_right_mono) simp_all
    then show ?thesis using that by (simp add: linspace_nth)
  qed
  then show ?thesis by (simp add: sorted_iff_nth_mono)
qed

lemma bin_ticks_linspace:
  "1 \<le> B \<Longrightarrow> linspace (- pi - pi / 8) (pi - pi / 8) (B + 1) = bin_ticks_of B"
  by (simp add: linspace_def bin_ticks_of_def)

lemma sorted_bin_ticks: "sorted (linspace (- pi - pi / 8) (pi - pi / 8) n)"
  by (rule sorted_linspace) simp

lemma create_histogram_result:
  assumes "map length cell_orientations = map length cell_magnitudes"
  shows "create_histogram cell_magnitudes cell_orientations B =
     Inr (foldl (hist_add (linspace (- pi - pi / 8) (pi - pi / 8) (B + 1))) (replicate B 0)
            (zip (map around5 (concat cell_orientations)) (concat cell_magnitudes)),
          linspace (- pi - pi / 8) (pi - pi / 8) (B + 1))"
proof -
  have l: "map length (map (map around5) cell_orientations) = map length cell_magnitudes"
    using assms by (simp add: comp_def)
  show ?thesis
    unfolding create_histogram_def Let_def np_histogram_def
    by (simp only: l sorted_bin_ticks map_concat[symmetric]) (simp add: map_concat)
qed


lemma rint_bounds: "\<bar>of_int (rint x) - x\<bar> \<le> 1 / 2"
proof -
  have "of_int \<lfloor>x\<rfloor> \<le> x" "x < of_int \<lfloor>x\<rfloor> + 1" by linarith+
  then show ?thesis
    unfolding rint_def Let_def by (auto simp: abs_le_iff)
qed

lemma around5_props:
  "\<exists>n::int. around5 x = of_int n / 10 ^ 5" "\<bar>around5 x - x\<bar> \<le> 1 / (2 * 10 ^ 5)"
proof -
  show "\<exists>n::int. around5 x = of_int n / 10 ^ 5" by (auto simp: around5_def)
  have h: "\<bar>of_int (rint (x * 10 ^ 5)) - x * 10 ^ 5\<bar> \<le> 1 / 2" by (rule rint_bounds)
  have "around5 x - x = (of_int (rint (x * 10 ^ 5)) - x * 10 ^ 5) / 10 ^ 5"
    by (simp add: around5_def diff_divide_distrib)
  then have "\<bar>around5 x - x\<bar> = \<bar>of_int (rint (x * 10 ^ 5)) - x * 10 ^ 5\<bar> / 10 ^ 5"
    by (simp only: abs_divide) simp
  also have "\<dots> \<le> (1 / 2) / 10 ^ 5"
    using h by (intro divide_right_mono) simp_all
  finally show "\<bar>around5 x - x\<bar> \<le> 1 / (2 * 10 ^ 5)" by simp
qed

lemma around5_zero [simp]: "around5 0 = 0"
  by (simp add: around5_def rint_def)

lemma bin_ticks_nth: "k \<le> B \<Longrightarrow> bin_ticks_of B ! k = - pi - pi / 8 + real k * (2 * pi / real B)"
  by (simp del: upt_Suc add: bin_ticks_of_def)

lemma length_bin_ticks [simp]: "length (bin_ticks_of B) = B + 1"
  by (simp add: bin_ticks_of_def)

lemma bin_ticks_ends:
  assumes "1 \<le> B"
  shows "hd (bin_ticks_of B) = - pi - pi / 8" "last (bin_ticks_of B) = pi - pi / 8"
proof -
  have ne: "bin_ticks_of B \<noteq> []" by (simp add: bin_ticks_of_def)
  show "hd (bin_ticks_of B) = - pi - pi / 8"
    using bin_ticks_nth[of 0 B] by (simp add: hd_conv_nth[OF ne])
  have "last (bin_ticks_of B) = bin_ticks_of B ! B"
    by (simp add: last_conv_nth[OF ne])
  also have "\<dots> = - pi - pi / 8 + real B * (2 * pi / real B)" by (simp add: bin_ticks_nth)
  also have "\<dots> = pi - pi / 8" using assms by simp
  finally show "last (bin_ticks_of B) = pi - pi / 8" .
qed

lemma create_histogram_bin_weights:
  assumes "map length cell_orientations = map length cell_magnitudes" "1 \<le> B"
  shows "\<exists>histogram.
      create_histogram cell_magnitudes cell_orientations B = Inr (histogram, bin_ticks_of B)
    \<and> length histogram = B
    \<and> (\<forall>k<B. histogram ! k =
          bin_weight (bin_ticks_of B) k
            (zip (map around5 (concat cell_orientations)) (concat cell_magnitudes)))"
proof -
  let ?t = "bin_ticks_of B"
  let ?vws = "zip (map around5 (concat cell_orientations)) (concat cell_magnitudes)"
  let ?h = "foldl (hist_add ?t) (replicate B 0) ?vws"
  have st: "sorted ?t"
    using sorted_bin_ticks[of "B + 1"] bin_ticks_linspace[OF assms(2)] by simp
  have res: "create_histogram cell_magnitudes cell_orientations B = Inr (?h, ?t)"
    using create_histogram_result[OF assms(1), of B] bin_ticks_linspace[OF assms(2)] by simp
  have w: "\<forall>k<B. ?h ! k = bin_weight ?t k ?vws"
    using foldl_hist_add_nth[OF st, of "replicate B 0" _ ?vws] by simp
  show ?thesis
    using res w by auto
qed

text \<open>
  C7. For every cell (two arrays of one shape) and every bin count \<open>B \<ge> 1\<close>,
  \<open>create_histogram\<close> returns as bin edges the \<open>B + 1\<close> evenly spaced values from
  \<open>-\<pi> - \<pi>/8\<close> to \<open>\<pi> - \<pi>/8\<close>, \<open>2\<pi>/B\<close> apart; the edges depend on \<open>B\<close> only, so they are
  the same for every cell; and the weight of bin \<open>k\<close> is the sum of the magnitudes of the
  pixels whose orientation, rounded to 5 decimal digits, lies in bin \<open>k\<close>. The rounded
  value is a multiple of \<open>10\<^sup>-\<^sup>5\<close> at most \<open>10\<^sup>-\<^sup>5/2\<close> away from the orientation.
\<close>

theorem bin_edges_and_rounding:
  assumes "map length cell_orientations = map length cell_magnitudes" "1 \<le> B"
  shows "\<exists>histogram.
      create_histogram cell_magnitudes cell_orientations B = Inr (histogram, bin_ticks_of B)
    \<and> length (bin_ticks_of B) = B + 1
    \<and> hd (bin_ticks_of B) = - pi - pi / 8 \<and> last (bin_ticks_of B) = pi - pi / 8
    \<and> (\<forall>k<B. bin_ticks_of B ! (k + 1) - bin_ticks_of B ! k = 2 * pi / real B)
    \<and> length histogram = B
    \<and> (\<forall>k<B. histogram ! k =
          bin_weight (bin_ticks_of B) k
            (zip (map around5 (concat cell_orientations)) (concat cell_magnitudes)))
    \<and> (\<forall>x. (\<exists>n::int. around5 x = of_int n / 10 ^ 5) \<and> \<bar>around5 x - x\<bar> \<le> 1 / (2 * 10 ^ 5))"
proof -
  have step: "\<forall>k<B. bin_ticks_of B ! (k + 1) - bin_ticks_of B ! k = 2 * pi / real B"
    by (simp add: bin_ticks_nth algebra_simps add_divide_distrib)
  show ?thesis
    using create_histogram_bin_weights[OF assms] step bin_ticks_ends[OF assms(2)] around5_props
    by auto
qed

lemma in_bin_upper:
  assumes "1 \<le> B" "in_bin (bin_ticks_of B) k v"
  shows "v \<le> pi - pi / 8"
proof -
  from assms(2) have k: "k + 1 \<le> B" and v: "v \<le> bin_ticks_of B ! (k + 1)"
    by (auto simp: in_bin_def)
  have "real (k + 1) * (2 * pi / real B) \<le> real B * (2 * pi / real B)"
    using k by (intro mult_right_mono) simp_all
  also have "\<dots> = 2 * pi" using assms(1) by simp
  finally have "bin_ticks_of B ! (k + 1) \<le> pi - pi / 8"
    unfolding bin_ticks_nth[OF k] by simp
  with v show ?thesis by simp
qed

lemma around5_pi_above: "pi - pi / 8 < around5 pi"
proof -
  have "pi - 1 / (2 * 10 ^ 5) \<le> around5 pi"
    using around5_props(2)[of pi] by linarith
  moreover have "pi - pi / 8 < pi - 1 / (2 * 10 ^ 5)"
    using pi_ge_two by simp
  ultimately show ?thesis by linarith
qed

lemma arctan2_neg_axis: "x < 0 \<Longrightarrow> arctan2 0 x = pi"
  by (simp add: arctan2_def)

lemma create_histogram_at_pi:
  "arctan2 0 (- 4) = pi \<and>
   (\<exists>ticks. create_histogram [[16]] [[pi]] 8 = Inr (replicate 8 0, ticks))"
proof -
  from create_histogram_bin_weights[of "[[pi]]" "[[16]]" 8]
  obtain h where
    r: "create_histogram [[16]] [[pi]] 8 = Inr (h, bin_ticks_of 8)"
    and l: "length h = 8"
    and w: "\<forall>k<8. h ! k = bin_weight (bin_ticks_of 8) k [(around5 pi, 16)]"
    by auto
  have "\<not> in_bin (bin_ticks_of 8) k (around5 pi)" for k
    using in_bin_upper[of 8 k "around5 pi"] around5_pi_above by auto
  then have "\<forall>k<8. h ! k = 0" using w by (simp add: bin_weight_def)
  then have "h = replicate 8 0" using l by (intro nth_equalityI) simp_all
  with r show ?thesis by (simp add: arctan2_neg_axis)
qed

theorem bin_edges_and_rounding_witness:
  "\<exists>histogram. create_histogram [[1]] [[0]] 8 = Inr (histogram, bin_ticks_of 8)
     \<and> length histogram = 8 \<and> histogram ! 4 = 1 \<and> histogram ! 0 = 0"
proof -
  from bin_edges_and_rounding[of "[[0]]" "[[1]]" 8]
  obtain h where
    r: "create_histogram [[1]] [[0]] 8 = Inr (h, bin_ticks_of 8)"
    and l: "length h = 8"
    and w: "\<forall>k<8. h ! k = bin_weight (bin_ticks_of 8) k [(0, 1)]"
    by auto
  have "in_bin (bin_ticks_of 8) 4 0" "\<not> in_bin (bin_ticks_of 8) 0 0"
    by (simp_all add: in_bin_def bin_ticks_nth)
  then have "h ! 4 = 1" "h ! 0 = 0" using w by (simp_all add: bin_weight_def)
  with r l show ?thesis by blast
qed


lemma find_bin_None_iff:
  assumes "sorted bins" "2 \<le> length bins"
  shows "find_bin bins v = None \<longleftrightarrow> \<not> (hd bins \<le> v \<and> v \<le> last bins)"
  using assms
proof (induction bins v rule: find_bin.induct)
  case (1 a b es v)
  show ?case
  proof (cases es)
    case Nil
    then show ?thesis using 1(2) by auto
  next
    case (Cons c es')
    have s: "sorted (b # es)" "2 \<le> length (b # es)" "a \<le> b"
      using 1(2) Cons by simp_all
    have ih: "find_bin (b # es) v = None \<longleftrightarrow> \<not> (b \<le> v \<and> v \<le> last (b # es))"
      if "\<not> (a \<le> v \<and> v < b)"
      using 1(1)[OF _ s(1,2)] that Cons by simp
    show ?thesis
    proof (cases "a \<le> v \<and> v < b")
      case True
      have "b \<le> last (b # es)" using s(1) Cons
        by (metis last_in_set list.discI order_refl set_ConsD sorted_simps(2))
      then show ?thesis using True Cons by auto
    next
      case False
      then show ?thesis using ih[OF False] s(3) Cons by auto
    qed
  qed
qed simp_all

lemma sum_bin_weights:
  assumes "sorted bins" "length bins = B + 1" "1 \<le> B"
  shows "(\<Sum>k<B. bin_weight bins k vws) =
     (\<Sum>vw\<leftarrow>vws. if hd bins \<le> fst vw \<and> fst vw \<le> last bins then snd vw else 0)"
proof (induction vws)
  case Nil
  then show ?case by (simp add: bin_weight_def)
next
  case (Cons vw vws)
  have one: "(\<Sum>k<B. if in_bin bins k (fst vw) then snd vw else 0) =
      (if hd bins \<le> fst vw \<and> fst vw \<le> last bins then snd vw else 0)"
  proof (cases "find_bin bins (fst vw)")
    case None
    then have "\<not> in_bin bins k (fst vw)" for k
      using in_bin_find_bin[OF assms(1)] by fastforce
    moreover have "\<not> (hd bins \<le> fst vw \<and> fst vw \<le> last bins)"
      using None find_bin_None_iff[OF assms(1), of "fst vw"] assms(2,3) by simp
    ultimately show ?thesis by auto
  next
    case (Some k')
    then have k': "k' < B" using find_bin_less[OF Some] assms(2) by simp
    have e: "in_bin bins k (fst vw) \<longleftrightarrow> k = k'" for k
      using Some find_bin_iff[OF assms(1), of "fst vw" k] find_bin_iff[OF assms(1), of "fst vw" k']
      by auto
    have "hd bins \<le> fst vw \<and> fst vw \<le> last bins"
      using Some find_bin_None_iff[OF assms(1), of "fst vw"] assms(2,3) by simp
    then show ?thesis using k' by (simp add: e)
  qed
  have "(\<Sum>k<B. bin_weight bins k (vw # vws)) =
      (\<Sum>k<B. if in_bin bins k (fst vw) then snd vw else 0) + (\<Sum>k<B. bin_weight bins k vws)"
    by (simp add: bin_weight_def sum.distrib)
  then show ?case using one Cons.IH by simp
qed

text \<open>
  What the bins of a cell do add up to: the magnitudes of the pixels whose rounded
  orientation lies between the first and the last edge, both included.
\<close>

lemma histogram_sum_in_range:
  assumes "map length cell_orientations = map length cell_magnitudes" "1 \<le> B"
  shows "\<exists>histogram ticks.
      create_histogram cell_magnitudes cell_orientations B = Inr (histogram, ticks)
    \<and> sum_list histogram =
        (\<Sum>vw\<leftarrow>zip (map around5 (concat cell_orientations)) (concat cell_magnitudes).
           if - pi - pi / 8 \<le> fst vw \<and> fst vw \<le> pi - pi / 8 then snd vw else 0)"
proof -
  let ?vws = "zip (map around5 (concat cell_orientations)) (concat cell_magnitudes)"
  from create_histogram_bin_weights[OF assms] obtain h where
    r: "create_histogram cell_magnitudes cell_orientations B = Inr (h, bin_ticks_of B)"
    and l: "length h = B"
    and w: "\<forall>k<B. h ! k = bin_weight (bin_ticks_of B) k ?vws"
    by blast
  have st: "sorted (bin_ticks_of B)"
    using sorted_bin_ticks[of "B + 1"] bin_ticks_linspace[OF assms(2)] by simp
  have "sum_list h = (\<Sum>k<B. h ! k)"
    using l by (simp add: sum_list_sum_nth atLeast0LessThan)
  also have "\<dots> = (\<Sum>k<B. bin_weight (bin_ticks_of B) k ?vws)"
    using w by simp
  also have "\<dots> = (\<Sum>vw\<leftarrow>?vws. if hd (bin_ticks_of B) \<le> fst vw \<and> fst vw \<le> last (bin_ticks_of B)
       then snd vw else 0)"
    by (rule sum_bin_weights[OF st _ assms(2)]) simp
  finally show ?thesis using r by (simp add: bin_ticks_ends[OF assms(2)])
qed

section \<open>Loops that fill a grid\<close>

lemma for_loop_append:
  "for_loop (xs @ ys) body s =
     (case for_loop xs body s of Inl e \<Rightarrow> Inl e | Inr s' \<Rightarrow> for_loop ys body s')"
  by (induction xs arbitrary: s) (simp_all split: sum.splits)

lemma for_loop_snoc:
  "for_loop xs body s = Inr s' \<Longrightarrow> for_loop (xs @ [x]) body s = body x s'"
  by (simp add: for_loop_append split: sum.splits)

lemma for_loop_upt_Suc:
  "for_loop [0..<k] body s = Inr s' \<Longrightarrow> for_loop [0..<Suc k] body s = body k s'"
  by (simp add: for_loop_snoc)

lemma set_item_ok:
  "i < length g \<Longrightarrow> j < length (g ! i) \<Longrightarrow> length v = length (g ! i ! j) \<Longrightarrow>
     set_item g i j v = Inr (g[i := (g ! i)[j := v]])"
  by (simp add: set_item_def)

lemma update_prefix:
  assumes "k < length ys" "length xs = k"
  shows "(xs @ drop k ys)[k := v] = (xs @ [v]) @ drop (Suc k) ys"
proof -
  have "drop k ys = ys ! k # drop (Suc k) ys"
    using assms(1) by (simp add: Cons_nth_drop_Suc)
  then show ?thesis using assms(2) by (simp add: list_update_append)
qed

lemma fill_row:
  assumes "i < length g" "k \<le> length (g ! i)"
    "\<And>j. j < k \<Longrightarrow> length (F j) = length (g ! i ! j)"
  shows "for_loop [0..<k] (\<lambda>j g. set_item g i j (F j)) g
       = Inr (g[i := map F [0..<k] @ drop k (g ! i)])"
  using assms(2,3)
proof (induction k)
  case 0
  then show ?case by simp
next
  case (Suc k)
  let ?g = "g[i := map F [0..<k] @ drop k (g ! i)]"
  have ih: "for_loop [0..<k] (\<lambda>j g. set_item g i j (F j)) g = Inr ?g"
    using Suc by simp
  have k: "k < length (g ! i)" using Suc.prems(1) by simp
  have gi: "?g ! i = map F [0..<k] @ drop k (g ! i)" using assms(1) by simp
  have len: "length (?g ! i) = length (g ! i)" using k by (simp add: gi)
  have cell: "?g ! i ! k = g ! i ! k" using k by (simp add: gi nth_append)
  have "set_item ?g i k (F k) = Inr (?g[i := (?g ! i)[k := F k]])"
    using assms(1) k len cell Suc.prems(2)[of k] by (intro set_item_ok) simp_all
  also have "(?g ! i)[k := F k] = map F [0..<Suc k] @ drop (Suc k) (g ! i)"
    unfolding gi using update_prefix[OF k, of "map F [0..<k]" "F k"] by simp
  finally have "set_item ?g i k (F k) = Inr (g[i := map F [0..<Suc k] @ drop (Suc k) (g ! i)])"
    by simp
  then show ?case using for_loop_upt_Suc[OF ih] by simp
qed

lemma fill_grid:
  assumes "k \<le> length g"
    "\<And>i. i < k \<Longrightarrow> length (g ! i) = n"
    "\<And>i j. i < k \<Longrightarrow> j < n \<Longrightarrow> length (F i j) = length (g ! i ! j)"
  shows "for_loop [0..<k] (\<lambda>i. for_loop [0..<n] (\<lambda>j g. set_item g i j (F i j))) g
       = Inr (map (\<lambda>i. map (F i) [0..<n]) [0..<k] @ drop k g)"
  using assms
proof (induction k)
  case 0
  then show ?case by simp
next
  case (Suc k)
  let ?g = "map (\<lambda>i. map (F i) [0..<n]) [0..<k] @ drop k g"
  have ih: "for_loop [0..<k] (\<lambda>i. for_loop [0..<n] (\<lambda>j g. set_item g i j (F i j))) g = Inr ?g"
    using Suc by simp
  have k: "k < length g" using Suc.prems(1) by simp
  have gk: "?g ! k = g ! k" using k by (simp add: nth_append)
  have lk: "k < length ?g" using k by simp
  have "for_loop [0..<n] (\<lambda>j g. set_item g k j (F k j)) ?g
      = Inr (?g[k := map (F k) [0..<n] @ drop n (?g ! k)])"
    using Suc.prems(2)[of k] Suc.prems(3)[of k]
    by (intro fill_row[OF lk]) (simp_all add: gk)
  also have "drop n (?g ! k) = []" using Suc.prems(2)[of k] by (simp add: gk)
  also have "?g[k := map (F k) [0..<n] @ []]
      = map (\<lambda>i. map (F i) [0..<n]) [0..<Suc k] @ drop (Suc k) g"
    using update_prefix[OF k, of "map (\<lambda>i. map (F i) [0..<n]) [0..<k]" "map (F k) [0..<n]"]
    by simp
  finally show ?case using for_loop_upt_Suc[OF ih] by simp
qed


section \<open>Block descriptor\<close>

lemma py_slice_nat: "py_slice xs (int a) (int a + int k) = take k (drop a xs)"
proof -
  have "take (nat (min (int a + int k) (int (length xs)) - min (int a) (int (length xs))))
          (drop (nat (min (int a) (int (length xs)))) xs) = take k (drop a xs)"
  proof (cases "a \<le> length xs")
    case True
    then have d: "nat (min (int a) (int (length xs))) = a" by simp
    show ?thesis
    proof (cases "a + k \<le> length xs")
      case True
      then show ?thesis using \<open>a \<le> length xs\<close> by (simp add: d min_def)
    next
      case False
      then have "nat (min (int a + int k) (int (length xs)) - min (int a) (int (length xs)))
          = length xs - a"
        using True by (simp add: min_def)
      then show ?thesis using False by (simp add: d)
    qed
  next
    case False
    then show ?thesis by (simp add: min_def)
  qed
  then show ?thesis by (simp add: py_slice_def Let_def)
qed

lemma take_drop_map_nth:
  "a + k \<le> length xs \<Longrightarrow> take k (drop a xs) = map (\<lambda>t. xs ! (a + t)) [0..<k]"
  by (intro nth_equalityI) simp_all

lemma rect3_row: "rect3 grid \<Longrightarrow> a < length grid \<Longrightarrow> length (grid ! a) = ncols grid"
  by (simp add: rect3_def rect_nth)

lemma rect3_cell:
  assumes "rect3 grid" "a < length grid" "b < length (grid ! a)"
  shows "length (grid ! a ! b) = ncols (concat grid)"
proof -
  have "grid ! a \<in> set grid" "grid ! a ! b \<in> set (grid ! a)"
    using assms(2,3) by simp_all
  then have "grid ! a ! b \<in> set (concat grid)" by auto
  then show ?thesis
    using assms(1) unfolding rect3_def rect_def list_all_iff by blast
qed

lemma get_block_spec:
  assumes "rect3 grid" "i * S + K \<le> length grid" "j * S + K \<le> ncols grid"
  shows "get_block grid (int K) (int S) i j = spec_block grid K S i j"
proof -
  have rows: "py_slice grid (int i * int S) (int i * int S + int K)
      = map (\<lambda>a. grid ! (i * S + a)) [0..<K]"
    using py_slice_nat[of grid "i * S" K] take_drop_map_nth[OF assms(2)] by simp
  have cols: "py_slice (grid ! (i * S + a)) (int j * int S) (int j * int S + int K)
      = map (\<lambda>b. grid ! (i * S + a) ! (j * S + b)) [0..<K]" if "a < K" for a
  proof -
    have "length (grid ! (i * S + a)) = ncols grid"
      using rect3_row[OF assms(1), of "i * S + a"] that assms(2) by simp
    then have "j * S + K \<le> length (grid ! (i * S + a))" using assms(3) by simp
    from take_drop_map_nth[OF this] show ?thesis
      using py_slice_nat[of "grid ! (i * S + a)" "j * S" K] by simp
  qed
  have m: "map (\<lambda>row. py_slice row (int j * int S) (int j * int S + int K))
          (map (\<lambda>a. grid ! (i * S + a)) [0..<K])
      = map (\<lambda>a. map (\<lambda>b. grid ! (i * S + a) ! (j * S + b)) [0..<K]) [0..<K]"
    using cols by simp
  show ?thesis
    unfolding get_block_def spec_block_def rows m ..
qed

lemma length_concat_uniform:
  "(\<And>x. x \<in> set xss \<Longrightarrow> length x = n) \<Longrightarrow> length (concat xss) = length xss * n"
  by (induction xss) simp_all

lemma length_spec_block:
  assumes "rect3 grid" "i * S + K \<le> length grid" "j * S + K \<le> ncols grid"
  shows "length (spec_block grid K S i j) = K * K * ncols (concat grid)"
proof -
  have cell: "length (grid ! (i * S + a) ! (j * S + b)) = ncols (concat grid)"
    if "a < K" "b < K" for a b
  proof -
    have a: "i * S + a < length grid" using that assms(2) by simp
    have "length (grid ! (i * S + a)) = ncols grid" by (rule rect3_row[OF assms(1) a])
    then have "j * S + b < length (grid ! (i * S + a))" using that assms(3) by simp
    from rect3_cell[OF assms(1) a this] show ?thesis .
  qed
  have "length (concat (map (\<lambda>a. map (\<lambda>b. grid ! (i * S + a) ! (j * S + b)) [0..<K]) [0..<K]))
      = K * K"
    by (subst length_concat_uniform[where n = K]) auto
  moreover have "length (spec_block grid K S i j)
      = length (concat (map (\<lambda>a. map (\<lambda>b. grid ! (i * S + a) ! (j * S + b)) [0..<K]) [0..<K]))
        * ncols (concat grid)"
    unfolding spec_block_def
    using cell by (intro length_concat_uniform) auto
  ultimately show ?thesis by simp
qed

lemma length_normalize_block [simp]: "length (normalize_block v) = length v"
  by (simp add: normalize_block_def)

lemma window_in_range:
  assumes "1 \<le> S" "K \<le> R" "i < (R - (K - 1)) div S"
  shows "i * S + K \<le> (R::nat)"
proof -
  have "Suc i \<le> (R - (K - 1)) div S" using assms(3) by simp
  then have "Suc i * S \<le> R - (K - 1)"
    using assms(1) by (simp add: less_eq_div_iff_mult_less_eq)
  then have "i * S + S + (K - 1) \<le> R" using assms(2) by simp
  then show ?thesis using assms(1) by linarith
qed


lemma ncols_nth0: "grid \<noteq> [] \<Longrightarrow> length (grid ! 0) = ncols grid"
  by (cases grid) simp_all

lemma int_window_count:
  assumes "K \<le> R" "1 \<le> K"
  shows "(int R - (int K - 1)) div int S = int ((R - (K - 1)) div S)"
proof -
  have "int R - (int K - 1) = int (R - (K - 1))" using assms by linarith
  then show ?thesis by (simp add: zdiv_int)
qed

lemma create_descriptor_result:
  assumes "rect3 grid" "grid \<noteq> []" "1 \<le> K" "1 \<le> S" "K \<le> length grid" "K \<le> ncols grid"
  shows "create_descriptor grid (int K) (int S) =
     Inr (map (\<lambda>i. map (\<lambda>j. normalize_block (spec_block grid K S i j))
                 [0..<(ncols grid - (K - 1)) div S])
            [0..<(length grid - (K - 1)) div S])"
proof -
  let ?m = "(length grid - (K - 1)) div S" and ?n = "(ncols grid - (K - 1)) div S"
  let ?d = "length (grid ! 0 ! 0) * K * K"
  let ?F = "\<lambda>i j. normalize_block (get_block grid (int K) (int S) i j)"
  let ?g0 = "replicate ?m (replicate ?n (replicate ?d (0::real)))"
  have c0: "length (grid ! 0) = ncols grid" by (rule ncols_nth0[OF assms(2)])
  have ne0: "grid ! 0 \<noteq> []" using c0 assms(3,6) by auto
  have b: "length (grid ! 0 ! 0) = ncols (concat grid)"
    using rect3_cell[OF assms(1), of 0 0] assms(2) ne0 by simp
  have m: "(int (length grid) - (int K - 1)) div int S = int ?m"
    by (rule int_window_count[OF assms(5,3)])
  have n: "(int (length (grid ! 0)) - (int K - 1)) div int S = int ?n"
    unfolding c0 by (rule int_window_count[OF assms(6,3)])
  have d: "nat (int (length (grid ! 0 ! 0)) * (int K)\<^sup>2) = ?d"
    by (simp add: power2_eq_square nat_mult_distrib)
  have rng: "i * S + K \<le> length grid" "j * S + K \<le> ncols grid" if "i < ?m" "j < ?n" for i j
    using window_in_range[OF assms(4,5) that(1)] window_in_range[OF assms(4,6) that(2)]
    by simp_all
  have F: "?F i j = normalize_block (spec_block grid K S i j)" if "i < ?m" "j < ?n" for i j
    using get_block_spec[OF assms(1) rng[OF that]] by simp
  have lF: "length (?F i j) = ?d" if "i < ?m" "j < ?n" for i j
    using length_spec_block[OF assms(1) rng[OF that]] F[OF that] b by (simp add: mult.commute mult.left_commute)
  have body: "(\<lambda>i. for_loop [0..<?n] (\<lambda>j. block_step grid (int K) (int S) i j))
      = (\<lambda>i. for_loop [0..<?n] (\<lambda>j g. set_item g i j (?F i j)))"
  proof -
    have "block_step grid (int K) (int S) = (\<lambda>i j g. set_item g i j (?F i j))"
      by (intro ext) (simp add: block_step_def)
    then show ?thesis by simp
  qed
  have "for_loop [0..<?m] (\<lambda>i. for_loop [0..<?n] (\<lambda>j g. set_item g i j (?F i j))) ?g0
      = Inr (map (\<lambda>i. map (?F i) [0..<?n]) [0..<?m] @ drop ?m ?g0)"
    by (rule fill_grid) (use lF in simp_all)
  also have "map (\<lambda>i. map (?F i) [0..<?n]) [0..<?m] @ drop ?m ?g0
      = map (\<lambda>i. map (\<lambda>j. normalize_block (spec_block grid K S i j)) [0..<?n]) [0..<?m]"
    using F by simp
  finally have loop: "for_loop [0..<?m] (\<lambda>i. for_loop [0..<?n]
        (\<lambda>j. block_step grid (int K) (int S) i j)) ?g0
      = Inr (map (\<lambda>i. map (\<lambda>j. normalize_block (spec_block grid K S i j)) [0..<?n]) [0..<?m])"
    unfolding body .
  have guard: "int K \<le> int (length grid) \<and> int K \<le> int (length (grid ! 0))"
    "int S \<noteq> 0" "\<not> (int ?m < 0 \<or> int ?n < 0)"
    using assms(4,5,6) c0 by simp_all
  show ?thesis
    unfolding create_descriptor_def Let_def m n d
    by (simp only: assms(2) ne0 guard if_False if_True not_True_eq_False not_not nat_int loop)
      simp
qed

lemma create_descriptor_assert:
  assumes "grid \<noteq> []" "\<not> (K \<le> length grid \<and> K \<le> ncols grid)"
  shows "create_descriptor grid (int K) S = Inl AssertionError"
  using assms by (simp add: create_descriptor_def Let_def ncols_nth0)


subsection \<open>Normalisation\<close>

lemma sum_sq_nonneg: "0 \<le> (\<Sum>x\<leftarrow>v. x\<^sup>2)" for v :: "real list"
  by (rule sum_list_nonneg) auto

lemma linalg_norm_nonneg: "0 \<le> linalg_norm v"
  by (simp add: linalg_norm_def sum_sq_nonneg)

lemma linalg_norm_zero_iff: "linalg_norm v = 0 \<longleftrightarrow> (\<forall>x\<in>set v. x = 0)"
proof -
  have "(\<Sum>x\<leftarrow>v. x\<^sup>2) = 0 \<longleftrightarrow> (\<forall>y\<in>set (map (\<lambda>x. x\<^sup>2) v). y = 0)"
    by (rule sum_list_nonneg_eq_0_iff) auto
  then show ?thesis by (simp add: linalg_norm_def)
qed

lemma normalize_block_zero:
  "(\<forall>x\<in>set v. x = 0) \<Longrightarrow> normalize_block v = v"
  by (simp add: normalize_block_def linalg_norm_zero_iff)

lemma linalg_norm_normalize:
  assumes "linalg_norm v \<noteq> 0"
  shows "linalg_norm (normalize_block v) = 1"
proof -
  let ?n = "linalg_norm v"
  have n2: "?n\<^sup>2 = (\<Sum>x\<leftarrow>v. x\<^sup>2)"
    by (simp add: linalg_norm_def sum_sq_nonneg)
  have "(\<Sum>x\<leftarrow>map (\<lambda>x. x / ?n) v. x\<^sup>2) = (\<Sum>x\<leftarrow>v. x\<^sup>2 * (1 / ?n\<^sup>2))"
    by (simp add: comp_def power_divide)
  also have "\<dots> = (\<Sum>x\<leftarrow>v. x\<^sup>2) * (1 / ?n\<^sup>2)"
    by (rule sum_list_mult_const)
  also have "\<dots> = 1" using assms by (simp add: n2[symmetric])
  finally have "(\<Sum>x\<leftarrow>map (\<lambda>x. x / ?n) v. x\<^sup>2) = 1" .
  then show ?thesis
    using assms by (simp add: normalize_block_def linalg_norm_def[of "map (\<lambda>x. x / ?n) v"])
qed

lemma normalize_block_nonzero:
  assumes "\<exists>x\<in>set (normalize_block v). x \<noteq> 0"
  shows "linalg_norm v \<noteq> 0"
proof
  assume z: "linalg_norm v = 0"
  then have "normalize_block v = v" by (simp add: normalize_block_def)
  with assms z show False by (simp add: linalg_norm_zero_iff)
qed

lemma abs_le_linalg_norm:
  assumes "x \<in> set v"
  shows "\<bar>x\<bar> \<le> linalg_norm v"
proof -
  have "x\<^sup>2 \<in> set (map (\<lambda>x. x\<^sup>2) v)" using assms by auto
  then have "x\<^sup>2 \<le> (\<Sum>x\<leftarrow>v. x\<^sup>2)"
    by (rule member_le_sum_list) auto
  then have "sqrt (x\<^sup>2) \<le> sqrt (\<Sum>x\<leftarrow>v. x\<^sup>2)"
    by (rule real_sqrt_le_mono)
  then show ?thesis by (simp only: linalg_norm_def real_sqrt_abs)
qed

lemma normalize_block_bounds:
  assumes "\<forall>x\<in>set v. 0 \<le> x" "y \<in> set (normalize_block v)"
  shows "0 \<le> y \<and> y \<le> 1"
proof (cases "linalg_norm v = 0")
  case True
  then have "normalize_block v = v" "\<forall>x\<in>set v. x = 0"
    by (simp_all add: normalize_block_def linalg_norm_zero_iff)
  with assms(2) show ?thesis by auto
next
  case False
  then obtain x where x: "x \<in> set v" "y = x / linalg_norm v"
    using assms(2) by (auto simp: normalize_block_def)
  have pos: "0 < linalg_norm v" using False linalg_norm_nonneg[of v] by simp
  have "x \<le> linalg_norm v" using abs_le_linalg_norm[OF x(1)] by simp
  then show ?thesis using x assms(1) pos by simp
qed

subsection \<open>The descriptor\<close>

lemma descriptor_entry:
  assumes "rect3 grid" "grid \<noteq> []" "1 \<le> K" "1 \<le> S"
    "create_descriptor grid (int K) (int S) = Inr out" "i < length out" "j < length (out ! i)"
  shows "K \<le> length grid \<and> K \<le> ncols grid
     \<and> i * S + K \<le> length grid \<and> j * S + K \<le> ncols grid
     \<and> get_block grid (int K) (int S) i j = spec_block grid K S i j
     \<and> out ! i ! j = normalize_block (spec_block grid K S i j)"
proof -
  have k: "K \<le> length grid \<and> K \<le> ncols grid"
    using create_descriptor_assert[OF assms(2), of K "int S"] assms(5) by auto
  then have kr: "K \<le> length grid" and kc: "K \<le> ncols grid" by simp_all
  let ?m = "(length grid - (K - 1)) div S" and ?n = "(ncols grid - (K - 1)) div S"
  have out: "out = map (\<lambda>i. map (\<lambda>j. normalize_block (spec_block grid K S i j)) [0..<?n]) [0..<?m]"
    using create_descriptor_result[OF assms(1-4) kr kc] assms(5) by simp
  have i: "i < ?m" using assms(6) by (simp add: out)
  then have j: "j < ?n" using assms(7) by (simp add: out)
  have rng: "i * S + K \<le> length grid" "j * S + K \<le> ncols grid"
    using window_in_range[OF assms(4) kr i] window_in_range[OF assms(4) kc j] by simp_all
  have "out ! i ! j = normalize_block (spec_block grid K S i j)"
    using i j by (simp add: out)
  then show ?thesis
    using k rng get_block_spec[OF assms(1) rng] by simp
qed

text \<open>
  C5. In the grid returned by \<open>create_descriptor\<close> (for a rectangular histogram grid,
  block size and step at least 1), every block vector that is not all zero has Euclidean
  norm 1, and a block whose gathered window is all zero is returned as it is, all zero.
\<close>

theorem descriptor_rows_unit_norm:
  assumes "rect3 grid" "grid \<noteq> []" "1 \<le> K" "1 \<le> S"
    "create_descriptor grid (int K) (int S) = Inr out" "i < length out" "j < length (out ! i)"
  shows "((\<exists>x\<in>set (out ! i ! j). x \<noteq> 0) \<longrightarrow> linalg_norm (out ! i ! j) = 1)
     \<and> ((\<forall>x\<in>set (get_block grid (int K) (int S) i j). x = 0) \<longrightarrow>
          out ! i ! j = get_block grid (int K) (int S) i j \<and> (\<forall>x\<in>set (out ! i ! j). x = 0))"
proof -
  from descriptor_entry[OF assms] have
    g: "get_block grid (int K) (int S) i j = spec_block grid K S i j"
    and o: "out ! i ! j = normalize_block (spec_block grid K S i j)"
    by simp_all
  have "linalg_norm (out ! i ! j) = 1" if "\<exists>x\<in>set (out ! i ! j). x \<noteq> 0"
    unfolding o by (rule linalg_norm_normalize[OF normalize_block_nonzero]) (use that o in simp)
  moreover have "out ! i ! j = get_block grid (int K) (int S) i j \<and> (\<forall>x\<in>set (out ! i ! j). x = 0)"
    if "\<forall>x\<in>set (get_block grid (int K) (int S) i j). x = 0"
    using that normalize_block_zero[of "spec_block grid K S i j"] by (simp add: g o)
  ultimately show ?thesis by blast
qed


lemma sqrt_25: "sqrt 25 = 5"
  by (rule real_sqrt_unique) simp_all

lemma example_grid_rect3: "rect3 [[[3], [4]], [[0], [0]]]"
  by (simp add: rect3_def rect_def)

lemma example_window:
  "spec_block [[[3], [4]], [[0], [0]]] 2 1 0 0 = [3, 4, 0, 0]"
  by code_simp

lemma example_block:
  "spec_block [[[3], [4]], [[0], [0]]] 2 (Suc 0) 0 0 = [3, 4, 0, 0]"
  "normalize_block [3, 4, 0, 0] = [3 / 5, 4 / 5, 0, 0]"
  using example_window by (simp_all add: normalize_block_def linalg_norm_def sqrt_25)

lemma descriptor_example:
  "create_descriptor [[[3], [4]], [[0], [0]]] 2 1 = Inr [[[3 / 5, 4 / 5, 0, 0]]]"
  using create_descriptor_result[OF example_grid_rect3, of 2 1]
  by (simp add: example_block upt_rec[of 0] del: upt_Suc)

text \<open>
  C6 (amended). For a rectangular \<open>R \<times> C \<times> B\<close> histogram grid with at least one row, block
  size \<open>K \<ge> 1\<close> and step \<open>S \<ge> 1\<close>: \<open>create_descriptor\<close> fails with the error of its assertion
  unless \<open>K \<le> R\<close> and \<open>K \<le> C\<close>; otherwise it returns a grid of
  \<open>(R - (K - 1)) div S\<close> rows of \<open>(C - (K - 1)) div S\<close> vectors of length \<open>B\<cdot>K\<^sup>2\<close>, and the
  vector at \<open>(i, j)\<close> is the window of \<open>K \<times> K\<close> cell histograms starting at cell
  \<open>(i\<cdot>S, j\<cdot>S)\<close>, flattened rows first, then columns, then bins, and then divided by its
  Euclidean norm unless that norm is zero.
\<close>

theorem create_descriptor_spec:
  assumes "rect3 grid" "grid \<noteq> []" "1 \<le> K" "1 \<le> S"
  shows "(\<not> (K \<le> length grid \<and> K \<le> ncols grid) \<longrightarrow>
            create_descriptor grid (int K) (int S) = Inl AssertionError)
     \<and> (K \<le> length grid \<and> K \<le> ncols grid \<longrightarrow>
          (\<exists>out. create_descriptor grid (int K) (int S) = Inr out
             \<and> length out = (length grid - (K - 1)) div S
             \<and> (\<forall>i<length out. length (out ! i) = (ncols grid - (K - 1)) div S
                  \<and> (\<forall>j<length (out ! i).
                        length (out ! i ! j) = length (grid ! 0 ! 0) * K\<^sup>2
                      \<and> out ! i ! j = normalize_block (spec_block grid K S i j)))))"
proof (intro conjI impI)
  assume "\<not> (K \<le> length grid \<and> K \<le> ncols grid)"
  then show "create_descriptor grid (int K) (int S) = Inl AssertionError"
    by (rule create_descriptor_assert[OF assms(2)])
next
  assume k: "K \<le> length grid \<and> K \<le> ncols grid"
  let ?m = "(length grid - (K - 1)) div S" and ?n = "(ncols grid - (K - 1)) div S"
  let ?out = "map (\<lambda>i. map (\<lambda>j. normalize_block (spec_block grid K S i j)) [0..<?n]) [0..<?m]"
  have r: "create_descriptor grid (int K) (int S) = Inr ?out"
    using create_descriptor_result[OF assms] k by simp
  have c0: "length (grid ! 0) = ncols grid" by (rule ncols_nth0[OF assms(2)])
  then have ne0: "0 < length (grid ! 0)" using assms(3) k by simp
  have b: "length (grid ! 0 ! 0) = ncols (concat grid)"
    using rect3_cell[OF assms(1), of 0 0] assms(2) ne0 by simp
  have len: "length (normalize_block (spec_block grid K S i j)) = length (grid ! 0 ! 0) * K\<^sup>2"
    if "i < ?m" "j < ?n" for i j
  proof -
    have "i * S + K \<le> length grid" "j * S + K \<le> ncols grid"
      using window_in_range[OF assms(4) _ that(1)] window_in_range[OF assms(4) _ that(2)] k
      by simp_all
    from length_spec_block[OF assms(1) this] show ?thesis
      by (simp add: b power2_eq_square)
  qed
  have "length ?out = ?m
      \<and> (\<forall>i<length ?out. length (?out ! i) = ?n
           \<and> (\<forall>j<length (?out ! i).
                 length (?out ! i ! j) = length (grid ! 0 ! 0) * K\<^sup>2
               \<and> ?out ! i ! j = normalize_block (spec_block grid K S i j)))"
    using len by simp
  with r show "\<exists>out. create_descriptor grid (int K) (int S) = Inr out
             \<and> length out = ?m
             \<and> (\<forall>i<length out. length (out ! i) = ?n
                  \<and> (\<forall>j<length (out ! i).
                        length (out ! i ! j) = length (grid ! 0 ! 0) * K\<^sup>2
                      \<and> out ! i ! j = normalize_block (spec_block grid K S i j)))"
    by blast
qed

theorem create_descriptor_spec_witness:
  "rect3 [[[3], [4]], [[0], [0]]] \<and>
   create_descriptor [[[3], [4]], [[0], [0]]] 3 1 = Inl AssertionError \<and>
   (\<exists>out. create_descriptor [[[3], [4]], [[0], [0]]] 2 1 = Inr out
      \<and> length out = 1 \<and> length (out ! 0) = 1 \<and> length (out ! 0 ! 0) = 4
      \<and> out ! 0 ! 0 = [3 / 5, 4 / 5, 0, 0])"
proof -
  let ?g = "[[[3], [4]], [[0], [0::real]]]"
  have a: "create_descriptor ?g 3 1 = Inl AssertionError"
    using create_descriptor_spec[OF example_grid_rect3, of 3 1] by simp
  have "\<exists>out. create_descriptor ?g 2 1 = Inr out
      \<and> length out = 1 \<and> length (out ! 0) = 1 \<and> length (out ! 0 ! 0) = 4
      \<and> out ! 0 ! 0 = [3 / 5, 4 / 5, 0, 0]"
    using create_descriptor_spec[OF example_grid_rect3, of 2 1]
    by (auto simp: example_block)
  with a example_grid_rect3 show ?thesis by blast
qed

text \<open>
  C6 as stated fails: the returned vector is the normalised window, not the flattened
  window itself.
\<close>

theorem descriptor_not_raw_window_counterexample:
  "create_descriptor [[[3], [4]], [[0], [0]]] 2 1 = Inr [[[3 / 5, 4 / 5, 0, 0]]]
   \<and> spec_block [[[3], [4]], [[0], [0]]] 2 1 0 0 = [3, 4, 0, 0]
   \<and> [[[3 / 5, 4 / 5, 0, 0]]] ! 0 ! 0 \<noteq> spec_block [[[3], [4]], [[0], [0]]] 2 1 0 0"
  by (simp add: descriptor_example example_block)

theorem descriptor_rows_unit_norm_witness:
  "create_descriptor [[[3], [4]], [[0], [0]]] 2 1 = Inr [[[3 / 5, 4 / 5, 0, 0]]]
   \<and> linalg_norm [3 / 5, 4 / 5, 0, 0] = 1"
proof -
  have "linalg_norm ([[[3 / 5, 4 / 5, 0, 0]]] ! 0 ! 0) = 1"
    using descriptor_rows_unit_norm[OF example_grid_rect3, of 2 1 "[[[3 / 5, 4 / 5, 0, 0]]]" 0 0]
      descriptor_example by simp
  then show ?thesis using descriptor_example by simp
qed

lemma spec_block_elems:
  assumes "x \<in> set (spec_block grid K S i j)"
  shows "\<exists>a<K. \<exists>b<K. x \<in> set (grid ! (i * S + a) ! (j * S + b))"
  using assms unfolding spec_block_def by auto blast

text \<open>
  C10. When no entry of the histogram grid is negative, every entry of the grid returned
  by \<open>create_descriptor\<close> lies between 0 and 1, both included.
\<close>

theorem descriptor_entries_in_unit_interval:
  assumes "rect3 grid" "grid \<noteq> []" "1 \<le> K" "1 \<le> S"
    "\<forall>row\<in>set grid. \<forall>cell\<in>set row. \<forall>x\<in>set cell. 0 \<le> x"
    "create_descriptor grid (int K) (int S) = Inr out"
  shows "\<forall>row\<in>set out. \<forall>v\<in>set row. \<forall>y\<in>set v. 0 \<le> y \<and> y \<le> 1"
proof (intro ballI)
  fix row v y assume "row \<in> set out" "v \<in> set row" "y \<in> set v"
  then obtain i j where i: "i < length out" and j: "j < length (out ! i)"
    and v: "v = out ! i ! j"
    by (metis in_set_conv_nth)
  from descriptor_entry[OF assms(1-4,6) i j] have
    rng: "i * S + K \<le> length grid" "j * S + K \<le> ncols grid"
    and o: "out ! i ! j = normalize_block (spec_block grid K S i j)"
    by simp_all
  have "0 \<le> x" if "x \<in> set (spec_block grid K S i j)" for x
  proof -
    from spec_block_elems[OF that] obtain a b where
      ab: "a < K" "b < K" "x \<in> set (grid ! (i * S + a) ! (j * S + b))" by blast
    have a: "i * S + a < length grid" using ab(1) rng(1) by simp
    have "length (grid ! (i * S + a)) = ncols grid" by (rule rect3_row[OF assms(1) a])
    then have b: "j * S + b < length (grid ! (i * S + a))" using ab(2) rng(2) by simp
    have "grid ! (i * S + a) \<in> set grid" "grid ! (i * S + a) ! (j * S + b) \<in> set (grid ! (i * S + a))"
      using a b by simp_all
    with assms(5) ab(3) show ?thesis by blast
  qed
  then have "\<forall>x\<in>set (spec_block grid K S i j). 0 \<le> x" by blast
  from normalize_block_bounds[OF this] \<open>y \<in> set v\<close> show "0 \<le> y \<and> y \<le> 1"
    by (simp add: v o)
qed

theorem descriptor_entries_in_unit_interval_witness:
  "create_descriptor [[[3], [4]], [[0], [0]]] 2 1 = Inr [[[3 / 5, 4 / 5, 0, 0]]]
   \<and> list_all (\<lambda>y. 0 \<le> y \<and> y \<le> 1) [3 / 5, 4 / 5, 0, 0::real]"
proof -
  have "\<forall>row\<in>set [[[3 / 5, 4 / 5, 0, 0::real]]]. \<forall>v\<in>set row. \<forall>y\<in>set v. 0 \<le> y \<and> y \<le> 1"
    by (rule descriptor_entries_in_unit_interval[OF example_grid_rect3, of 2 1])
      (simp_all add: descriptor_example)
  then have "list_all (\<lambda>y. 0 \<le> y \<and> y \<le> 1) [3 / 5, 4 / 5, 0, 0::real]"
    unfolding list_all_iff by simp
  then show ?thesis using descriptor_example by simp
qed

section \<open>Histograms of all cells: the grid\<close>

lemma fill_grid_prefix:
  assumes "k \<le> length g"
    "\<And>i. i < k \<Longrightarrow> n \<le> length (g ! i)"
    "\<And>i j. i < k \<Longrightarrow> j < n \<Longrightarrow> length (F i j) = length (g ! i ! j)"
  shows "for_loop [0..<k] (\<lambda>i. for_loop [0..<n] (\<lambda>j g. set_item g i j (F i j))) g
       = Inr (map (\<lambda>i. map (F i) [0..<n] @ drop n (g ! i)) [0..<k] @ drop k g)"
  using assms
proof (induction k)
  case 0
  then show ?case by simp
next
  case (Suc k)
  let ?row = "\<lambda>i. map (F i) [0..<n] @ drop n (g ! i)"
  let ?g = "map ?row [0..<k] @ drop k g"
  have ih: "for_loop [0..<k] (\<lambda>i. for_loop [0..<n] (\<lambda>j g. set_item g i j (F i j))) g = Inr ?g"
    using Suc by simp
  have k: "k < length g" using Suc.prems(1) by simp
  have gk: "?g ! k = g ! k" using k by (simp add: nth_append)
  have lk: "k < length ?g" using k by simp
  have "for_loop [0..<n] (\<lambda>j g. set_item g k j (F k j)) ?g
      = Inr (?g[k := map (F k) [0..<n] @ drop n (?g ! k)])"
    using Suc.prems(2)[of k] Suc.prems(3)[of k]
    by (intro fill_row[OF lk]) (simp_all add: gk)
  also have "?g[k := map (F k) [0..<n] @ drop n (?g ! k)] = map ?row [0..<Suc k] @ drop (Suc k) g"
    unfolding gk using update_prefix[OF k, of "map ?row [0..<k]" "?row k"] by simp
  finally show ?case using for_loop_upt_Suc[OF ih] by simp
qed

lemma for_loop_with_ticks:
  assumes "\<And>x g t. x \<in> set xs \<Longrightarrow>
     body x (g, t) = (case body' x g of Inl e \<Rightarrow> Inl e | Inr g' \<Rightarrow> Inr (g', Some T))"
  shows "for_loop xs body (g, t) =
     (case for_loop xs body' g of Inl e \<Rightarrow> Inl e
      | Inr g' \<Rightarrow> Inr (g', if xs = [] then t else Some T))"
  using assms
proof (induction xs arbitrary: g t)
  case Nil
  then show ?case by simp
next
  case (Cons x xs)
  have b: "body x (g, t) = (case body' x g of Inl e \<Rightarrow> Inl e | Inr g' \<Rightarrow> Inr (g', Some T))"
    using Cons.prems by simp
  show ?case
  proof (cases "body' x g")
    case (Inl e)
    then show ?thesis using b by simp
  next
    case (Inr g')
    have "for_loop xs body (g', Some T) =
       (case for_loop xs body' g' of Inl e \<Rightarrow> Inl e
        | Inr g'' \<Rightarrow> Inr (g'', if xs = [] then Some T else Some T))"
      using Cons.prems by (intro Cons.IH) simp
    then show ?thesis using b Inr by (simp split: sum.splits)
  qed
qed

lemma length_slice: "length (slice xs a b) = min (b - a) (length xs - a)"
  by (simp add: slice_def)

lemma cell_of_lengths:
  assumes "map length A = map length B"
  shows "map length (cell_of A c i j) = map length (cell_of B c i j)"
proof -
  have "map length (cell_of X c i j)
      = map (\<lambda>l. min ((j + 1) * c - j * c) (l - j * c)) (slice (map length X) (i * c) ((i + 1) * c))"
    for X :: matrix
    by (simp add: cell_of_def comp_def length_slice slice_def take_map drop_map min.commute)
  then show ?thesis using assms by simp
qed

lemma cell_step_A2:
  assumes "map length ori = map length mag"
  shows "cell_step (A2 ori) (A2 mag) c 8 i j (g, t) =
     (case set_item g i j (foldl (hist_add (bin_ticks_of 8)) (replicate 8 0)
             (zip (map around5 (concat (cell_of ori c i j))) (concat (cell_of mag c i j)))) of
        Inl e \<Rightarrow> Inl e
      | Inr g' \<Rightarrow> Inr (g', Some (bin_ticks_of 8)))"
proof -
  have h: "create_histogram (cell_of mag c i j) (cell_of ori c i j) 8 =
      Inr (foldl (hist_add (bin_ticks_of 8)) (replicate 8 0)
             (zip (map around5 (concat (cell_of ori c i j))) (concat (cell_of mag c i j))),
           bin_ticks_of 8)"
    using create_histogram_result[OF cell_of_lengths[OF assms], of c i j 8]
      bin_ticks_linspace[of 8] by simp
  show ?thesis
    unfolding cell_step_def slice2_def cell_of_def[symmetric]
    by (simp add: h)
qed


lemma ncols_of_lengths:
  "map length m = replicate n k \<Longrightarrow> 0 < n \<Longrightarrow> ncols m = k"
  by (cases m; cases n) (simp_all add: ncols_def)

lemma fields_A2:
  assumes "rect img" "2 \<le> nrows img" "2 \<le> ncols img"
  shows "compute_magnitudes_and_orientations (Float32, img) =
     Inr (A2 (orientation_field img), A2 (magnitude_field img))"
proof -
  have n: "0 < nrows img" using assms(2) by simp
  have "ncols (orientation_field img) = ncols img" "ncols (magnitude_field img) = ncols img"
    using field_dims(3,4)[of img] n by (simp_all add: ncols_of_lengths)
  then have "squeeze (orientation_field img) = A2 (orientation_field img)"
    "squeeze (magnitude_field img) = A2 (magnitude_field img)"
    using assms(2,3) by (simp_all add: squeeze_A2 field_dims)
  then show ?thesis
    using compute_magnitudes_and_orientations_nonempty[OF assms(1)] assms(2,3) by simp
qed

lemma image_loop:
  assumes "0 < gm" "0 < gn"
  shows "for_loop [0..<gm]
       (\<lambda>i. for_loop [0..<gn]
          (\<lambda>j. cell_step (A2 (orientation_field img)) (A2 (magnitude_field img)) c 8 i j))
       (g, None)
     = (case for_loop [0..<gm]
              (\<lambda>i. for_loop [0..<gn] (\<lambda>j g. set_item g i j (cell_histogram img c i j))) g of
          Inl e \<Rightarrow> Inl e
        | Inr g' \<Rightarrow> Inr (g', Some (bin_ticks_of 8)))"
proof -
  let ?T = "bin_ticks_of 8"
  have ml: "map length (orientation_field img) = map length (magnitude_field img)"
    by (simp add: field_dims)
  have step: "cell_step (A2 (orientation_field img)) (A2 (magnitude_field img)) c 8 i j (g, t) =
      (case set_item g i j (cell_histogram img c i j) of
         Inl e \<Rightarrow> Inl e | Inr g' \<Rightarrow> Inr (g', Some ?T))" for i j g t
    unfolding cell_histogram_def by (rule cell_step_A2[OF ml])
  have inner: "for_loop [0..<gn]
        (\<lambda>j. cell_step (A2 (orientation_field img)) (A2 (magnitude_field img)) c 8 i j) (g, t)
      = (case for_loop [0..<gn] (\<lambda>j g. set_item g i j (cell_histogram img c i j)) g of
           Inl e \<Rightarrow> Inl e | Inr g' \<Rightarrow> Inr (g', Some ?T))" for i g t
    using for_loop_with_ticks[where xs = "[0..<gn]"
        and body = "\<lambda>j. cell_step (A2 (orientation_field img)) (A2 (magnitude_field img)) c 8 i j"
        and body' = "\<lambda>j g. set_item g i j (cell_histogram img c i j)"
        and T = ?T and g = g and t = t] step assms(2)
    by simp
  show ?thesis
    using for_loop_with_ticks[where xs = "[0..<gm]"
        and body = "\<lambda>i. for_loop [0..<gn]
          (\<lambda>j. cell_step (A2 (orientation_field img)) (A2 (magnitude_field img)) c 8 i j)"
        and body' = "\<lambda>i. for_loop [0..<gn] (\<lambda>j g. set_item g i j (cell_histogram img c i j))"
        and T = ?T and g = g and t = None]
      inner assms(1)
    by simp
qed

lemma length_cell_histogram [simp]: "length (cell_histogram img c i j) = 8"
  by (simp add: cell_histogram_def)

lemma image_histograms_unfold:
  assumes "rect img" "2 \<le> nrows img" "2 \<le> ncols img" "0 < c"
    "nrows img mod c = 0" "ncols img mod c = 0"
  shows "create_image_histograms (Float32, img) (int c) =
     (case for_loop [0..<ncols img div c]
              (\<lambda>i. for_loop [0..<nrows img div c]
                 (\<lambda>j g. set_item g i j (cell_histogram img c i j)))
              (replicate (ncols img div c) (replicate (ncols img div c) (replicate 8 0))) of
          Inl e \<Rightarrow> Inl e
        | Inr g' \<Rightarrow> Inr (g', Some (bin_ticks_of 8)))"
proof -
  have gm: "0 < ncols img div c" and gn: "0 < nrows img div c"
    using assms(2-6) by (auto simp: div_greater_zero_iff mod_eq_0_iff_dvd dest: dvd_imp_le)
  have d: "int (ncols img) mod int c = 0" "int (nrows img) mod int c = 0"
    "int (ncols img) div int c = int (ncols img div c)"
    "int (nrows img) div int c = int (nrows img div c)" "int c \<noteq> 0"
    using assms(4-6) by (simp_all add: zmod_int[symmetric] zdiv_int)
  show ?thesis
    unfolding create_image_histograms_def Let_def snd_conv fields_A2[OF assms(1-3)] d
    by (simp only: sum.case prod.case if_False simp_thms nat_int of_nat_less_0_iff
        image_loop[OF gm gn]) (use assms(4) in simp)
qed


lemma image_histograms_wide:
  assumes "rect img" "2 \<le> nrows img" "2 \<le> ncols img" "0 < c"
    "nrows img mod c = 0" "ncols img mod c = 0" "nrows img div c \<le> ncols img div c"
  shows "create_image_histograms (Float32, img) (int c) =
     Inr (map (\<lambda>i. map (cell_histogram img c i) [0..<nrows img div c]
                   @ replicate (ncols img div c - nrows img div c) (replicate 8 0))
            [0..<ncols img div c],
          Some (bin_ticks_of 8))"
proof -
  let ?gm = "ncols img div c" and ?gn = "nrows img div c"
  let ?g0 = "replicate ?gm (replicate ?gm (replicate 8 (0::real)))"
  have "for_loop [0..<?gm]
          (\<lambda>i. for_loop [0..<?gn] (\<lambda>j g. set_item g i j (cell_histogram img c i j))) ?g0
      = Inr (map (\<lambda>i. map (cell_histogram img c i) [0..<?gn] @ drop ?gn (?g0 ! i)) [0..<?gm]
             @ drop ?gm ?g0)"
    using assms(7) by (intro fill_grid_prefix) simp_all
  also have "map (\<lambda>i. map (cell_histogram img c i) [0..<?gn] @ drop ?gn (?g0 ! i)) [0..<?gm]
             @ drop ?gm ?g0
      = map (\<lambda>i. map (cell_histogram img c i) [0..<?gn]
                   @ replicate (?gm - ?gn) (replicate 8 0)) [0..<?gm]"
    by simp
  finally show ?thesis
    unfolding image_histograms_unfold[OF assms(1-6)] by simp
qed

lemma for_loop_fails:
  assumes "for_loop xs body s = Inr s'" "body x s' = Inl e"
  shows "for_loop (xs @ x # ys) body s = Inl e"
  using assms by (simp add: for_loop_append)

lemma upt_split: "a < b \<Longrightarrow> [0..<b] = [0..<a] @ a # [Suc a..<b]"
  using upt_add_eq_append[of 0 a "b - a"] by (simp add: upt_conv_Cons)

lemma image_histograms_tall:
  assumes "rect img" "2 \<le> nrows img" "2 \<le> ncols img" "0 < c"
    "nrows img mod c = 0" "ncols img mod c = 0" "ncols img div c < nrows img div c"
  shows "create_image_histograms (Float32, img) (int c) = Inl IndexError"
proof -
  let ?gm = "ncols img div c" and ?gn = "nrows img div c"
  let ?g0 = "replicate ?gm (replicate ?gm (replicate 8 (0::real)))"
  let ?inner = "\<lambda>i. for_loop [0..<?gn] (\<lambda>j g. set_item g i j (cell_histogram img c i j))"
  have gm: "0 < ?gm"
    using assms(3,4,6) by (auto simp: div_greater_zero_iff mod_eq_0_iff_dvd dest: dvd_imp_le)
  let ?g1 = "?g0[0 := map (cell_histogram img c 0) [0..<?gm] @ drop ?gm (?g0 ! 0)]"
  have pre: "for_loop [0..<?gm] (\<lambda>j g. set_item g 0 j (cell_histogram img c 0 j)) ?g0 = Inr ?g1"
    using gm by (intro fill_row) simp_all
  have bad: "set_item ?g1 0 ?gm (cell_histogram img c 0 ?gm) = Inl IndexError"
    using gm by (simp add: set_item_def)
  have split: "[0..<?gn] = [0..<?gm] @ ?gm # [Suc ?gm..<?gn]"
    by (rule upt_split[OF assms(7)])
  have first: "?inner 0 ?g0 = Inl IndexError"
    unfolding split by (rule for_loop_fails[OF pre bad])
  have "[0..<?gm] = 0 # [1..<?gm]" using gm by (simp add: upt_conv_Cons)
  then have "for_loop [0..<?gm] ?inner ?g0 = Inl IndexError"
    using first by simp
  then show ?thesis
    unfolding image_histograms_unfold[OF assms(1-6)] by simp
qed

lemma zero_image_dims:
  "0 < n \<Longrightarrow> nrows (replicate n (replicate m (0::real))) = n"
  "0 < n \<Longrightarrow> ncols (replicate n (replicate m (0::real))) = m"
  by (simp_all add: nrows_def ncols_replicate)

lemma cell_of_beyond: "nrows m \<le> i * c \<Longrightarrow> cell_of m c i j = []"
  by (simp add: cell_of_def slice_def nrows_def)

text \<open>
  C2. The claimed shape fails on the code for an image that is not square. For a float32
  image of 2 rows and 4 columns with cell size 2 the claim gives a grid of 1 by 2 histograms; the
  code returns 2 by 2, with the cell \<open>(1, 0)\<close> taken from rows that do not exist and the
  cell \<open>(0, 1)\<close> never computed. For 4 rows and 2 columns the code fails with an index error.
\<close>

theorem image_histograms_nonsquare_shape:
  "(\<exists>grid ticks. create_image_histograms (Float32, replicate 2 (replicate 4 0)) 2 = Inr (grid, ticks)
      \<and> nrows grid = 2 \<and> ncols grid = 2 \<and> grid ! 1 ! 0 = replicate 8 0
      \<and> grid ! 0 ! 1 = replicate 8 0)
   \<and> create_image_histograms (Float32, replicate 4 (replicate 2 0)) 2 = Inl IndexError"
proof -
  have w: "create_image_histograms (Float32, replicate 2 (replicate 4 0)) (int 2) =
     Inr (map (\<lambda>i. map (cell_histogram (replicate 2 (replicate 4 0)) 2 i) [0..<1]
                   @ replicate 1 (replicate 8 0)) [0..<2],
          Some (bin_ticks_of 8))"
    using image_histograms_wide[of "replicate 2 (replicate 4 0)" 2]
    by (simp add: zero_image_rect zero_image_dims)
  have t: "create_image_histograms (Float32, replicate 4 (replicate 2 0)) (int 2) = Inl IndexError"
    using image_histograms_tall[of "replicate 4 (replicate 2 0)" 2]
    by (simp add: zero_image_rect zero_image_dims)
  let ?g = "map (\<lambda>i. map (cell_histogram (replicate 2 (replicate 4 0)) 2 i) [0..<1]
                   @ replicate 1 (replicate 8 0)) [0..<2]"
  have e: "cell_histogram (replicate 2 (replicate 4 0)) 2 1 0 = replicate 8 0"
    unfolding cell_histogram_def
    by (simp add: cell_of_beyond field_dims zero_image_dims)
  have "nrows ?g = 2" "ncols ?g = 2" "?g ! 1 ! 0 = replicate 8 0" "?g ! 0 ! 1 = replicate 8 0"
    using e by (simp_all add: nrows_def upt_rec[of 0] upt_rec[of 1] del: upt_Suc)
  then show ?thesis using w t by simp
qed


lemma image_histograms_square:
  assumes "rect img" "2 \<le> nrows img" "ncols img = nrows img" "0 < c" "nrows img mod c = 0"
  shows "create_image_histograms (Float32, img) (int c) =
     Inr (map (\<lambda>i. map (cell_histogram img c i) [0..<nrows img div c]) [0..<nrows img div c],
          Some (bin_ticks_of 8))"
  using image_histograms_wide[OF assms(1,2) _ assms(4,5)] assms(2,3,5) by simp

lemma field_nth:
  assumes "i < nrows img" "j < ncols img"
  shows "magnitude_field img ! i ! j =
           (spec_gradient SOBEL_X_KERNEL img i j)\<^sup>2 + (spec_gradient SOBEL_Y_KERNEL img i j)\<^sup>2"
    and "orientation_field img ! i ! j =
           arctan2 (spec_gradient SOBEL_Y_KERNEL img i j) (spec_gradient SOBEL_X_KERNEL img i j)"
  using assms
  by (simp_all add: magnitude_field_def orientation_field_def grad_field_def nrows_def)

lemma field_row_length:
  assumes "i < nrows img"
  shows "length (magnitude_field img ! i) = ncols img"
    and "length (orientation_field img ! i) = ncols img"
proof -
  have "i < length (magnitude_field img)" "i < length (orientation_field img)"
    using assms field_dims(1,2)[of img] by (simp_all add: nrows_def)
  then have "length (magnitude_field img ! i) = map length (magnitude_field img) ! i"
    "length (orientation_field img ! i) = map length (orientation_field img) ! i"
    by simp_all
  then show "length (magnitude_field img ! i) = ncols img"
    and "length (orientation_field img ! i) = ncols img"
    using assms by (simp_all only: field_dims nth_replicate)
qed

lemma cell_of_one:
  assumes "i < length m" "j < length (m ! i)"
  shows "cell_of m 1 i j = [[m ! i ! j]]"
proof -
  have "take 1 (drop i m) = [m ! i]"
    using assms(1) by (simp add: take_Suc_conv_app_nth Cons_nth_drop_Suc[symmetric])
  moreover have "take 1 (drop j (m ! i)) = [m ! i ! j]"
    using assms(2) by (simp add: Cons_nth_drop_Suc[symmetric])
  ultimately show ?thesis by (simp add: cell_of_def slice_def)
qed

lemma find_bin_around5_pi: "find_bin (bin_ticks_of 8) (around5 pi) = None"
proof (cases "find_bin (bin_ticks_of 8) (around5 pi)")
  case (Some k)
  from in_bin_upper[OF _ find_bin_Some_in_bin[OF Some]] around5_pi_above
  show ?thesis by simp
qed simp

lemma edge_image_rect: "rect [[1, 0, 0], [1, 0, 0], [1, 0, 0::real]]"
  by (simp add: rect_def)

lemma edge_image_gradient:
  "spec_gradient SOBEL_X_KERNEL [[1, 0, 0], [1, 0, 0], [1, 0, 0]] 1 1 = - 4"
  "spec_gradient SOBEL_Y_KERNEL [[1, 0, 0], [1, 0, 0], [1, 0, 0]] 1 1 = 0"
  by code_simp+

lemmas edge_image_gradient' = edge_image_gradient[unfolded One_nat_def]

lemma image_histogram_at_pi:
  "\<exists>grid ticks.
     create_image_histograms (Float32, [[1, 0, 0], [1, 0, 0], [1, 0, 0]]) 1 = Inr (grid, ticks)
   \<and> orientation_field [[1, 0, 0], [1, 0, 0], [1, 0, 0]] ! 1 ! 1 = pi
   \<and> magnitude_field [[1, 0, 0], [1, 0, 0], [1, 0, 0]] ! 1 ! 1 = 16
   \<and> grid ! 1 ! 1 = replicate 8 0"
proof -
  let ?img = "[[1, 0, 0], [1, 0, 0], [1, 0, 0::real]]"
  have n: "nrows ?img = 3" "ncols ?img = 3" by (simp_all add: nrows_def)
  have r: "create_image_histograms (Float32, ?img) (int 1) =
     Inr (map (\<lambda>i. map (cell_histogram ?img 1 i) [0..<3]) [0..<3], Some (bin_ticks_of 8))"
    using image_histograms_square[OF edge_image_rect, of 1] by (simp add: n)
  have o: "orientation_field ?img ! 1 ! 1 = pi"
    using field_nth(2)[of 1 ?img 1] by (simp add: n edge_image_gradient' arctan2_neg_axis)
  have m: "magnitude_field ?img ! 1 ! 1 = 16"
    using field_nth(1)[of 1 ?img 1] by (simp add: n edge_image_gradient')
  have l: "1 < length (orientation_field ?img)" "1 < length (orientation_field ?img ! 1)"
    "1 < length (magnitude_field ?img)" "1 < length (magnitude_field ?img ! 1)"
    using field_dims(1,2)[of ?img] field_row_length[of 1 ?img]
    by (simp_all add: n nrows_def)
  have "cell_histogram ?img 1 1 1 = replicate 8 0"
    unfolding cell_histogram_def cell_of_one[OF l(1,2)] cell_of_one[OF l(3,4)] o m
    by (simp add: hist_add_def find_bin_around5_pi)
  then have "map (\<lambda>i. map (cell_histogram ?img 1 i) [0..<3]) [0..<3] ! 1 ! 1 = replicate 8 0"
    by (simp del: upt_Suc)
  with r o m show ?thesis by simp
qed


text \<open>
  C1. The claim that no orientation is dropped fails on the code: the orientation \<open>\<pi>\<close>
  (a gradient with \<open>Ix < 0\<close> and \<open>Iy = 0\<close>) rounds to a value above the last edge
  \<open>\<pi> - \<pi>/8\<close>, so a cell holding this one pixel of magnitude 16 gets an all-zero histogram.
  The centre pixel of the float32 image with rows \<open>[1, 0, 0]\<close> is such a pixel: with cell size 1
  its histogram in the grid is all zero.
\<close>

theorem histogram_drops_orientation_pi:
  "(\<exists>ticks. create_histogram [[16]] [[pi]] 8 = Inr (replicate 8 0, ticks))
   \<and> (\<exists>grid ticks.
        create_image_histograms (Float32, [[1, 0, 0], [1, 0, 0], [1, 0, 0]]) 1 = Inr (grid, ticks)
      \<and> orientation_field [[1, 0, 0], [1, 0, 0], [1, 0, 0]] ! 1 ! 1 = pi
      \<and> magnitude_field [[1, 0, 0], [1, 0, 0], [1, 0, 0]] ! 1 ! 1 = 16
      \<and> grid ! 1 ! 1 = replicate 8 0)"
  using create_histogram_at_pi image_histogram_at_pi by blast

text \<open>
  An image with a single row or column: \<open>squeeze\<close> drops the axis, and the cell slices
  fail.
\<close>


lemma gradients_1x1: "compute_image_gradients (Float32, [[5]]) = Inr (A0 0, A0 0)"
  by code_simp

lemma image_histograms_single_pixel:
  "create_image_histograms (Float32, [[5]]) 1 = Inl IndexError"
proof -
  have "compute_magnitudes_and_orientations (Float32, [[5]]) = Inr (A0 0, A0 0)"
    by (simp add: compute_magnitudes_and_orientations_def gradients_1x1 arctan2_zero)
  then show ?thesis
    by (simp add: create_image_histograms_def nrows_def cell_step_def slice2_def)
qed

end
